theory Spec2Isabelle
  imports Main "HOL-Library.Word"
begin

section \<open>The vmemcache index: data model\<close>

text \<open>
  \<^verbatim>\<open>vmemcache_index.c\<close> wraps a ranked AVL tree (\<^verbatim>\<open>ravl\<close>) holding pointers to
  \<^verbatim>\<open>struct cache_entry\<close> objects, serialised by the file-level mutex
  \<^verbatim>\<open>lock_ravl\<close>. Entries are shared heap objects, so they live in an explicit store:
  pointers are addresses, and every read or write through a pointer is a read or write of
  the store.
\<close>

type_synonym byte = "8 word"
type_synonym addr = nat

text \<open>
  Modelled from the spec: the declaration of \<^verbatim>\<open>struct cache_entry\<close> (\<^verbatim>\<open>vmemcache.h\<close> is
  not part of the sources at hand). The spec lists its fields as \<^verbatim>\<open>key.key\<close> (bytes),
  \<^verbatim>\<open>key.ksize\<close> (length), \<^verbatim>\<open>value.refcount\<close> (an integer) and a payload handle.
  The flexible array \<^verbatim>\<open>key.key\<close> together with its length \<^verbatim>\<open>key.ksize\<close> is one
  list of bytes; \<open>ksize\<close> reads its length.
\<close>

record cache_entry =
  refcount :: int
  payload :: nat
  key :: "byte list"

definition ksize :: "cache_entry \<Rightarrow> nat" where
  "ksize e = length (key e)"

text \<open>
  The C library's \<^verbatim>\<open>memcmp(s1, s2, n)\<close>: the first \<open>n\<close> bytes of both buffers are compared
  as unsigned chars; the result is zero when they agree and has the sign of the difference
  of the first pair of bytes that differ. C fixes only the sign; the model returns that
  difference. The first equation is the comparison proper; the second covers \<open>n = 0\<close> and
  the end of a buffer (\<^verbatim>\<open>ravl_cmp\<close> below calls it on two buffers of exactly \<open>n\<close> bytes).
\<close>

fun memcmp :: "byte list \<Rightarrow> byte list \<Rightarrow> nat \<Rightarrow> int" where
  "memcmp (x # xs) (y # ys) (Suc n) =
     (if x = y then memcmp xs ys n else int (unat x) - int (unat y))"
| "memcmp xs ys n = 0"

text \<open>
  \<^verbatim>\<open>ravl_cmp(lhs, rhs)\<close>, on the two entries its arguments point to: first the key
  sizes, then the bytes.
\<close>

definition ravl_cmp :: "cache_entry \<Rightarrow> cache_entry \<Rightarrow> int" where
  "ravl_cmp lce rce =
     (if ksize lce < ksize rce then - 1
      else if ksize lce > ksize rce then 1
      else memcmp (key lce) (key rce) (ksize lce))"

text \<open>
  The order the specification describes, stated on keys alone: by length first, and by
  lexicographic comparison of the (unsigned) bytes when the lengths agree.
\<close>

definition key_before :: "byte list \<Rightarrow> byte list \<Rightarrow> bool" where
  "key_before k1 k2 \<longleftrightarrow>
     length k1 < length k2 \<or>
     (length k1 = length k2 \<and> (k1, k2) \<in> lexord {(a, b). a < b})"

text \<open>An entry carrying the bytes of a string as its key (ASCII codes).\<close>

definition entry_of_key :: "string \<Rightarrow> cache_entry" where
  "entry_of_key str = \<lparr>refcount = 0, payload = 0, key = map of_char str\<rparr>"

section \<open>The ordered container\<close>

text \<open>
  Modelled from the spec: the ordered container (\<^verbatim>\<open>ravl.c\<close> is not part of the sources
  at hand). The spec describes it as a generic ordered map over opaque records with
  \<^verbatim>\<open>insert(container, record) -> success|failure\<close>,
  \<^verbatim>\<open>find(container, probe, EQUAL) -> node|none\<close>, \<^verbatim>\<open>remove(container, node)\<close> and
  \<^verbatim>\<open>data(node) -> record\<close>, over a comparator given at creation; duplicate keys are
  rejected by insert, which can also fail for lack of memory. Its balancing is outside the
  specification, so the container is the sequence of its records (pointers to entries) in
  comparator order, and a node is a position in that sequence. The comparator reads the
  entries the pointers refer to, hence the store argument \<open>mem\<close>.
\<close>

type_synonym ravl = "addr list"
type_synonym ravl_node = nat
type_synonym ravl_compare = "cache_entry \<Rightarrow> cache_entry \<Rightarrow> int"

text \<open>
  Modelled from the spec: \<^verbatim>\<open>ravl_find(ravl, data, RAVL_PREDICATE_EQUAL)\<close>, the node whose
  record compares equal to the probe \<open>d\<close>, or none (\<^verbatim>\<open>NULL\<close>).
\<close>

fun ravl_find ::
  "ravl_compare \<Rightarrow> (addr \<Rightarrow> cache_entry) \<Rightarrow> ravl \<Rightarrow> cache_entry \<Rightarrow> ravl_node option" where
  "ravl_find cmp mem [] d = None"
| "ravl_find cmp mem (p # ps) d =
     (if cmp d (mem p) = 0 then Some 0 else map_option Suc (ravl_find cmp mem ps d))"

text \<open>
  Modelled from the spec: \<^verbatim>\<open>ravl_data(node)\<close>, the record of a node, and
  \<^verbatim>\<open>ravl_remove(ravl, node)\<close>, which detaches that node. Both are applied to nodes
  that \<open>ravl_find\<close> returned, which are positions inside the sequence.
\<close>

definition ravl_data :: "ravl \<Rightarrow> ravl_node \<Rightarrow> addr" where
  "ravl_data t n = t ! n"

definition ravl_remove :: "ravl \<Rightarrow> ravl_node \<Rightarrow> ravl" where
  "ravl_remove t n = take n t @ drop (Suc n) t"

text \<open>
  Modelled from the spec: \<^verbatim>\<open>ravl_insert(ravl, data)\<close>. It returns \<open>- 1\<close> and leaves the
  container as it was when the node cannot be allocated (\<open>node_ok\<close> is the allocator's
  answer) or when a record with an equal key is present; otherwise it returns \<open>0\<close> and the
  record stands at its place in the order (\<open>ravl_place\<close>).
\<close>

fun ravl_place :: "ravl_compare \<Rightarrow> (addr \<Rightarrow> cache_entry) \<Rightarrow> ravl \<Rightarrow> addr \<Rightarrow> ravl" where
  "ravl_place cmp mem [] d = [d]"
| "ravl_place cmp mem (p # ps) d =
     (if cmp (mem d) (mem p) < 0 then d # p # ps else p # ravl_place cmp mem ps d)"

definition ravl_insert ::
  "ravl_compare \<Rightarrow> (addr \<Rightarrow> cache_entry) \<Rightarrow> bool \<Rightarrow> ravl \<Rightarrow> addr \<Rightarrow> int \<times> ravl" where
  "ravl_insert cmp mem node_ok t d =
     (if \<not> node_ok then (- 1, t)
      else if ravl_find cmp mem t (mem d) \<noteq> None then (- 1, t)
      else (0, ravl_place cmp mem t d))"

section \<open>The program state\<close>

text \<open>
  What the functions of \<^verbatim>\<open>vmemcache_index.c\<close> read and write: the store of cache
  entries (\<open>memory\<close>, with the set of addresses that are currently \<open>allocated\<close>; a freed
  block keeps its bytes but leaves the set), the container behind the \<^verbatim>\<open>index\<close> pointer
  (\<^verbatim>\<open>cache->index\<close> in remove), the file-level mutex \<^verbatim>\<open>lock_ravl\<close> (held or not) and
  \<^verbatim>\<open>errno\<close>. \<^verbatim>\<open>ERR\<close> and \<^verbatim>\<open>LOG\<close> only write to the log and are left out.
\<close>

record state =
  memory :: "addr \<Rightarrow> cache_entry"
  allocated :: "addr set"
  index :: ravl
  lock_ravl :: bool
  errno :: int

definition EINVAL :: int where
  "EINVAL = 22"

definition SIZE_1K :: nat where
  "SIZE_1K = 1024"

text \<open>
  Modelled from the spec: the serialization lock (\<^verbatim>\<open>util_mutex_lock\<close> and
  \<^verbatim>\<open>util_mutex_unlock\<close> are declared outside the sources at hand). The lock is not
  reentrant: locking it while it is held blocks, and with nobody left to release it the
  call never returns, which is the value \<open>None\<close>.
\<close>

definition util_mutex_lock :: "state \<Rightarrow> state option" where
  "util_mutex_lock s = (if lock_ravl s then None else Some (s\<lparr>lock_ravl := True\<rparr>))"

definition util_mutex_unlock :: "state \<Rightarrow> state" where
  "util_mutex_unlock s = s\<lparr>lock_ravl := False\<rparr>"

text \<open>
  The probe pointer \<^verbatim>\<open>e\<close> of \<^verbatim>\<open>vmcache_index_get\<close> refers either to the local buffer
  \<^verbatim>\<open>sb\<close> or to a block obtained from \<^verbatim>\<open>Malloc\<close>. The allocator's answer is an argument
  \<open>m\<close> of the model: \<open>None\<close> is \<^verbatim>\<open>NULL\<close>, \<open>Some a\<close> a block at address \<open>a\<close>, which
  becomes allocated. \<^verbatim>\<open>Malloc\<close> does not initialise the block and nothing initialises
  \<^verbatim>\<open>sb\<close>: a block starts with what the store holds at its address, and the initial
  contents of \<^verbatim>\<open>sb\<close> are an argument. \<open>store_key\<close> is the pair of writes
  \<^verbatim>\<open>e->key.ksize = ksize; memcpy(e->key.key, key, ksize)\<close> and \<open>load\<close> reads \<^verbatim>\<open>*e\<close>.
\<close>

datatype probe_ptr = Local | Heap addr

definition Malloc :: "addr option \<Rightarrow> state \<Rightarrow> (probe_ptr \<times> state) option" where
  "Malloc m s =
     (case m of
        None \<Rightarrow> None
      | Some a \<Rightarrow> Some (Heap a, s\<lparr>allocated := insert a (allocated s)\<rparr>))"

fun Free :: "probe_ptr \<Rightarrow> state \<Rightarrow> state" where
  "Free (Heap a) s = s\<lparr>allocated := allocated s - {a}\<rparr>"
| "Free Local s = s"

fun store_key ::
  "probe_ptr \<Rightarrow> byte list \<Rightarrow> cache_entry \<times> state \<Rightarrow> cache_entry \<times> state" where
  "store_key Local k (sb, s) = (sb\<lparr>key := k\<rparr>, s)"
| "store_key (Heap a) k (sb, s) =
     (sb, s\<lparr>memory := (memory s)(a := (memory s a)\<lparr>key := k\<rparr>)\<rparr>)"

fun load :: "probe_ptr \<Rightarrow> cache_entry \<times> state \<Rightarrow> cache_entry" where
  "load Local (sb, s) = sb"
| "load (Heap a) (sb, s) = memory s a"

text \<open>
  Modelled from the spec: the entry lifecycle (\<^verbatim>\<open>vmemcache_entry_acquire\<close> and
  \<^verbatim>\<open>vmemcache_entry_release\<close> are defined outside the sources at hand). Acquire
  increments the reference count. Release decrements it and, if the result is 0,
  finalizes the entry: its memory is released. The payload store belongs to another
  component and is not represented.
\<close>

definition vmemcache_entry_acquire :: "addr \<Rightarrow> state \<Rightarrow> state" where
  "vmemcache_entry_acquire entry s =
     s\<lparr>memory :=
         (memory s)(entry := (memory s entry)\<lparr>refcount := refcount (memory s entry) + 1\<rparr>)\<rparr>"

definition vmemcache_entry_release :: "addr \<Rightarrow> state \<Rightarrow> state" where
  "vmemcache_entry_release entry s =
     (let r = refcount (memory s entry) - 1;
          s1 = s\<lparr>memory := (memory s)(entry := (memory s entry)\<lparr>refcount := r\<rparr>)\<rparr>
      in if r = 0 then s1\<lparr>allocated := allocated s1 - {entry}\<rparr> else s1)"

section \<open>The index operations\<close>

text \<open>
  \<^verbatim>\<open>vmcache_index_new\<close>: the mutex is initialised and the container is created empty
  with \<^verbatim>\<open>ravl_cmp\<close> as its comparator, which is why the operations below hand
  \<open>ravl_cmp\<close> to the container.
\<close>

definition vmcache_index_new :: "state \<Rightarrow> state" where
  "vmcache_index_new s = s\<lparr>lock_ravl := False, index := []\<rparr>"

text \<open>
  \<^verbatim>\<open>vmcache_index_insert(index, entry)\<close>. The result is the returned \<^verbatim>\<open>int\<close> and the
  state after the call; \<open>None\<close> when the call does not return.
\<close>

definition vmcache_index_insert :: "bool \<Rightarrow> addr \<Rightarrow> state \<Rightarrow> (int \<times> state) option" where
  "vmcache_index_insert node_ok entry s =
     (case util_mutex_lock s of
        None \<Rightarrow> None
      | Some s1 \<Rightarrow>
          (case ravl_insert ravl_cmp (memory s1) node_ok (index s1) entry of
             (rc, t) \<Rightarrow>
               if rc \<noteq> 0 then Some (- 1, util_mutex_unlock s1)
               else
                 let s2 = s1\<lparr>index := t\<rparr>;
                     s3 = s2\<lparr>memory := (memory s2)(entry := (memory s2 entry)\<lparr>refcount := 1\<rparr>)\<rparr>
                 in Some (0, util_mutex_unlock s3)))"

text \<open>
  The states a call of \<^verbatim>\<open>vmcache_index_insert\<close> passes through, one after each
  statement that changes the state: the state at entry, after \<^verbatim>\<open>util_mutex_lock\<close>,
  after \<^verbatim>\<open>ravl_insert\<close>, after the write of \<^verbatim>\<open>refcount\<close> and after
  \<^verbatim>\<open>util_mutex_unlock\<close>. Another thread can look at the index only in a state in which
  the lock is free.
\<close>

definition vmcache_index_insert_states :: "bool \<Rightarrow> addr \<Rightarrow> state \<Rightarrow> state list" where
  "vmcache_index_insert_states node_ok entry s =
     (case util_mutex_lock s of
        None \<Rightarrow> [s]
      | Some s1 \<Rightarrow>
          (case ravl_insert ravl_cmp (memory s1) node_ok (index s1) entry of
             (rc, t) \<Rightarrow>
               if rc \<noteq> 0 then [s, s1, util_mutex_unlock s1]
               else
                 let s2 = s1\<lparr>index := t\<rparr>;
                     s3 = s2\<lparr>memory := (memory s2)(entry := (memory s2 entry)\<lparr>refcount := 1\<rparr>)\<rparr>
                 in [s, s1, s2, s3, util_mutex_unlock s3]))"

text \<open>
  \<^verbatim>\<open>vmcache_index_get(index, key, ksize, entry)\<close>. The buffer \<^verbatim>\<open>key\<close> of \<^verbatim>\<open>ksize\<close>
  bytes is the list \<open>k\<close>. The result is the returned \<^verbatim>\<open>int\<close>, the pointer left in
  \<^verbatim>\<open>*entry\<close> (\<open>None\<close> for \<^verbatim>\<open>NULL\<close>, which is stored first) and the state after the
  call.
\<close>

definition vmcache_index_get ::
  "cache_entry \<Rightarrow> addr option \<Rightarrow> byte list \<Rightarrow> state \<Rightarrow> (int \<times> addr option \<times> state) option" where
  "vmcache_index_get sb m k s =
     (let ksz = length k in
      case (if ksz > SIZE_1K then Malloc m s else Some (Local, s)) of
        None \<Rightarrow> Some (- 1, None, s)
      | Some (e, s0) \<Rightarrow>
          let (sb1, s1) = store_key e k (sb, s0) in
          (case util_mutex_lock s1 of
             None \<Rightarrow> None
           | Some s2 \<Rightarrow>
               let node = ravl_find ravl_cmp (memory s2) (index s2) (load e (sb1, s2));
                   s3 = (if ksz > SIZE_1K then Free e s2 else s2)
               in (case node of
                     None \<Rightarrow> Some (0, None, util_mutex_unlock s3)
                   | Some n \<Rightarrow>
                       let p = ravl_data (index s3) n;
                           s4 = vmemcache_entry_acquire p s3
                       in Some (0, Some p, util_mutex_unlock s4))))"

text \<open>\<^verbatim>\<open>vmcache_index_remove(cache, entry)\<close>.\<close>

definition vmcache_index_remove :: "addr \<Rightarrow> state \<Rightarrow> (int \<times> state) option" where
  "vmcache_index_remove entry s =
     (case util_mutex_lock s of
        None \<Rightarrow> None
      | Some s1 \<Rightarrow>
          (case ravl_find ravl_cmp (memory s1) (index s1) (memory s1 entry) of
             None \<Rightarrow> Some (- 1, (util_mutex_unlock s1)\<lparr>errno := EINVAL\<rparr>)
           | Some node \<Rightarrow>
               let s2 = s1\<lparr>index := ravl_remove (index s1) node\<rparr>;
                   s3 = vmemcache_entry_release entry s2
               in Some (0, util_mutex_unlock s3)))"

section \<open>Specification-level notions\<close>

text \<open>
  Lookup as the specification words it: the entry equal to the key if present, with its
  reference count already incremented, or not found, which is a successful return
  carrying no entry. No threshold and no probe record appear in it.
\<close>

definition lookup_spec :: "byte list \<Rightarrow> state \<Rightarrow> int \<times> addr option \<times> state" where
  "lookup_spec k s =
     (case find (\<lambda>p. key (memory s p) = k) (index s) of
        None \<Rightarrow> (0, None, s)
      | Some p \<Rightarrow> (0, Some p, vmemcache_entry_acquire p s))"

text \<open>
  The invariants of the data model: at most one indexed entry per key, and every indexed
  pointer refers to an allocated entry. \<open>malloc_fresh\<close> says of an allocator answer that
  the block it hands out is not one that is still allocated. \<open>index_sorted\<close> says that
  the container holds its records in the order of the comparator; \<open>index_inv\<close>, which the
  operations keep, is that together with \<open>index_allocated\<close>.
\<close>

definition index_keys_distinct :: "state \<Rightarrow> bool" where
  "index_keys_distinct s \<longleftrightarrow> distinct (map (\<lambda>p. key (memory s p)) (index s))"

definition index_allocated :: "state \<Rightarrow> bool" where
  "index_allocated s \<longleftrightarrow> set (index s) \<subseteq> allocated s"

definition malloc_fresh :: "addr option \<Rightarrow> state \<Rightarrow> bool" where
  "malloc_fresh m s \<longleftrightarrow> (case m of None \<Rightarrow> True | Some a \<Rightarrow> a \<notin> allocated s)"

definition index_sorted :: "state \<Rightarrow> bool" where
  "index_sorted s \<longleftrightarrow>
     sorted_wrt (\<lambda>p q. key_before (key (memory s p)) (key (memory s q))) (index s)"

definition index_inv :: "state \<Rightarrow> bool" where
  "index_inv s \<longleftrightarrow> index_sorted s \<and> index_allocated s"

text \<open>
  States for the worked examples. \<open>demo\<close> is a fresh index beside four entries created
  by the cache engine: \<open>foo\<close> (payload 7) at address 10, a second object with the same
  key \<open>foo\<close> (payload 9) at address 20, \<open>ab\<close> at address 30, and at address 40 an entry
  whose key is 1025 bytes long, above the threshold. \<open>demo_foo\<close> is \<open>demo\<close> with the entry
  at address 10 indexed, and \<open>demo_big\<close> is \<open>demo\<close> with the entry at address 40 indexed.
  \<open>blank\<close> stands for the contents of an uninitialised local buffer.
\<close>

definition big_key :: "byte list" where
  "big_key = replicate 1025 7"

definition blank :: cache_entry where
  "blank = \<lparr>refcount = 0, payload = 0, key = []\<rparr>"

definition demo :: state where
  "demo = vmcache_index_new
     \<lparr>memory = (\<lambda>_. blank)
         (10 := (entry_of_key ''foo'')\<lparr>payload := 7\<rparr>,
          20 := (entry_of_key ''foo'')\<lparr>payload := 9\<rparr>,
          30 := entry_of_key ''ab'',
          40 := blank\<lparr>key := big_key\<rparr>),
      allocated = {10, 20, 30, 40}, index = [], lock_ravl = True, errno = 0\<rparr>"

definition demo_foo :: state where
  "demo_foo = demo\<lparr>index := [10],
     memory := (memory demo)(10 := (memory demo 10)\<lparr>refcount := 1\<rparr>)\<rparr>"

definition demo_big :: state where
  "demo_big = demo\<lparr>index := [40],
     memory := (memory demo)(40 := (memory demo 40)\<lparr>refcount := 1\<rparr>)\<rparr>"

text \<open>
  \<open>demo_twin\<close> is \<open>demo_foo\<close> in which the second object with key \<open>foo\<close>, at address
  20 and not indexed, has one holder. \<open>demo_foo_removed\<close> is \<open>demo_foo\<close> after its only
  entry was detached and released.
\<close>

definition demo_twin :: state where
  "demo_twin = demo_foo\<lparr>memory := (memory demo_foo)(20 := (memory demo_foo 20)\<lparr>refcount := 1\<rparr>)\<rparr>"

definition demo_foo_removed :: state where
  "demo_foo_removed = vmemcache_entry_release 10 (demo_foo\<lparr>index := []\<rparr>)"

text \<open>
  \<open>demo_big_removed\<close> is \<open>demo_big\<close> after its only entry was detached and released.
  \<open>demo_held\<close> is \<open>demo_foo\<close> after a lookup took a second reference to its entry, and
  \<open>demo_held_removed\<close> is that state after the entry was detached and released.
\<close>

definition demo_big_removed :: state where
  "demo_big_removed = vmemcache_entry_release 40 (demo_big\<lparr>index := []\<rparr>)"

definition demo_held :: state where
  "demo_held = vmemcache_entry_acquire 10 demo_foo"

definition demo_held_removed :: state where
  "demo_held_removed = vmemcache_entry_release 10 (demo_held\<lparr>index := []\<rparr>)"

section \<open>The comparator\<close>

lemma memcmp_zero_iff:
  "length xs = n \<Longrightarrow> length ys = n \<Longrightarrow> memcmp xs ys n = 0 \<longleftrightarrow> xs = ys"
proof (induction xs ys n rule: memcmp.induct)
  case (1 x xs y ys n)
  then show ?case by (auto simp: word_uint_eq_iff)
qed auto

lemma memcmp_neg_iff:
  "length xs = n \<Longrightarrow> length ys = n \<Longrightarrow>
   memcmp xs ys n < 0 \<longleftrightarrow> (xs, ys) \<in> lexord {(a, b). a < b}"
proof (induction xs ys n rule: memcmp.induct)
  case (1 x xs y ys n)
  then show ?case by (auto simp: word_less_def word_uint_eq_iff)
qed auto

lemma memcmp_pos_iff:
  "length xs = n \<Longrightarrow> length ys = n \<Longrightarrow>
   memcmp xs ys n > 0 \<longleftrightarrow> (ys, xs) \<in> lexord {(a, b). a < b}"
proof (induction xs ys n rule: memcmp.induct)
  case (1 x xs y ys n)
  then show ?case by (auto simp: word_less_def word_uint_eq_iff)
qed auto

lemma ravl_cmp_zero_iff: "ravl_cmp l r = 0 \<longleftrightarrow> key l = key r"
  using memcmp_zero_iff [of "key l" "length (key l)" "key r"]
  by (auto simp: ravl_cmp_def ksize_def)

lemma ravl_cmp_neg_iff: "ravl_cmp l r < 0 \<longleftrightarrow> key_before (key l) (key r)"
  using memcmp_neg_iff [of "key l" "length (key l)" "key r"]
  by (auto simp: ravl_cmp_def ksize_def key_before_def)

lemma ravl_cmp_pos_iff: "ravl_cmp l r > 0 \<longleftrightarrow> key_before (key r) (key l)"
  using memcmp_pos_iff [of "key l" "length (key l)" "key r"]
  by (auto simp: ravl_cmp_def ksize_def key_before_def)

lemma byte_less_trans: "trans {(a :: byte, b). a < b}"
  by (auto simp: trans_def)

lemma key_before_irrefl: "\<not> key_before k k"
  by (simp add: key_before_def lexord_irreflexive)

lemma key_before_trans:
  "key_before k1 k2 \<Longrightarrow> key_before k2 k3 \<Longrightarrow> key_before k1 k3"
  unfolding key_before_def
  using lexord_trans [OF _ _ byte_less_trans, of k1 k2 k3] by auto

lemma key_before_total: "key_before k1 k2 \<or> k1 = k2 \<or> key_before k2 k1"
proof -
  have "(k1, k2) \<in> lexord {(a :: byte, b). a < b} \<or> k1 = k2
      \<or> (k2, k1) \<in> lexord {(a :: byte, b). a < b}"
    by (rule lexord_linear) auto
  then show ?thesis
    unfolding key_before_def by (cases "length k1 < length k2") auto
qed

text \<open>
  Claim C2. The comparator is a strict total order on keys. Its sign is that of
  \<open>key_before\<close>: a shorter key orders first whatever its bytes, keys of one length order
  by lexicographic comparison of their bytes, and the comparator returns zero exactly
  when the two keys have the same length and the same bytes. The order is irreflexive,
  transitive and total, and a positive result is the mirror image of a negative one.
  \<open>a\<close> orders before \<open>ab\<close> (and before \<open>Ab\<close> and \<open>0b\<close>, whose first bytes are smaller),
  and \<open>ab\<close> orders before \<open>ba\<close>.
\<close>

theorem ravl_cmp_strict_total_order:
  "(ravl_cmp l r < 0 \<longleftrightarrow> key_before (key l) (key r)) \<and>
   (ravl_cmp l r = 0 \<longleftrightarrow> ksize l = ksize r \<and> key l = key r) \<and>
   (ravl_cmp l r > 0 \<longleftrightarrow> ravl_cmp r l < 0) \<and>
   (ksize l < ksize r \<longrightarrow> ravl_cmp l r < 0) \<and>
   (ksize l = ksize r \<longrightarrow>
      (ravl_cmp l r < 0 \<longleftrightarrow> (key l, key r) \<in> lexord {(a, b). a < b})) \<and>
   \<not> ravl_cmp l l < 0 \<and>
   (ravl_cmp l r < 0 \<longrightarrow> ravl_cmp r m < 0 \<longrightarrow> ravl_cmp l m < 0) \<and>
   (ravl_cmp l r < 0 \<or> key l = key r \<or> ravl_cmp r l < 0) \<and>
   ravl_cmp (entry_of_key ''a'') (entry_of_key ''ab'') < 0 \<and>
   ravl_cmp (entry_of_key ''a'') (entry_of_key ''Ab'') < 0 \<and>
   ravl_cmp (entry_of_key ''a'') (entry_of_key ''0b'') < 0 \<and>
   ravl_cmp (entry_of_key ''ab'') (entry_of_key ''ba'') < 0"
proof -
  have ex: "ravl_cmp (entry_of_key ''a'') (entry_of_key ''ab'') < 0"
       "ravl_cmp (entry_of_key ''a'') (entry_of_key ''Ab'') < 0"
       "ravl_cmp (entry_of_key ''a'') (entry_of_key ''0b'') < 0"
       "ravl_cmp (entry_of_key ''ab'') (entry_of_key ''ba'') < 0"
    by (simp_all add: ravl_cmp_def ksize_def entry_of_key_def)
  have len: "ksize l < ksize r \<longrightarrow> ravl_cmp l r < 0"
    by (simp add: ravl_cmp_def)
  have same: "ksize l = ksize r \<longrightarrow>
      (ravl_cmp l r < 0 \<longleftrightarrow> (key l, key r) \<in> lexord {(a, b). a < b})"
    by (simp add: ravl_cmp_neg_iff key_before_def ksize_def)
  have zero: "ravl_cmp l r = 0 \<longleftrightarrow> ksize l = ksize r \<and> key l = key r"
    by (auto simp: ravl_cmp_zero_iff ksize_def)
  have tr: "ravl_cmp l r < 0 \<longrightarrow> ravl_cmp r m < 0 \<longrightarrow> ravl_cmp l m < 0"
    using key_before_trans [of "key l" "key r" "key m"] by (simp add: ravl_cmp_neg_iff)
  have tot: "ravl_cmp l r < 0 \<or> key l = key r \<or> ravl_cmp r l < 0"
    using key_before_total [of "key l" "key r"] by (simp add: ravl_cmp_neg_iff)
  have irr: "\<not> ravl_cmp l l < 0"
    by (simp add: ravl_cmp_neg_iff key_before_irrefl)
  have mirror: "ravl_cmp l r > 0 \<longleftrightarrow> ravl_cmp r l < 0"
    by (simp add: ravl_cmp_neg_iff ravl_cmp_pos_iff)
  show ?thesis
    using ex len same zero tr tot irr mirror ravl_cmp_neg_iff [of l r] by blast
qed

theorem ravl_cmp_strict_total_order_witness:
  "ravl_cmp (entry_of_key ''ab'') (entry_of_key ''abc'') < 0 \<and>
   ravl_cmp (entry_of_key ''abc'') (entry_of_key ''abd'') < 0 \<and>
   ravl_cmp (entry_of_key ''ab'') (entry_of_key ''abd'') < 0 \<and>
   ksize (entry_of_key ''ab'') < ksize (entry_of_key ''abc'') \<and>
   ksize (entry_of_key ''abc'') = ksize (entry_of_key ''abd'') \<and>
   (key (entry_of_key ''abc''), key (entry_of_key ''abd'')) \<in> lexord {(a, b). a < b} \<and>
   \<not> ravl_cmp (entry_of_key ''abc'') (entry_of_key ''ab'') < 0 \<and>
   ravl_cmp (entry_of_key ''abc'') (entry_of_key ''ab'') > 0"
proof -
  have h1: "ksize (entry_of_key ''ab'') < ksize (entry_of_key ''abc'')"
    by (simp add: ksize_def entry_of_key_def)
  have h2: "ksize (entry_of_key ''abc'') = ksize (entry_of_key ''abd'')"
    by (simp add: ksize_def entry_of_key_def)
  have h3: "(key (entry_of_key ''abc''), key (entry_of_key ''abd''))
      \<in> lexord {(a, b). a < b}"
    by (simp add: entry_of_key_def)
  note t1 = ravl_cmp_strict_total_order
    [of "entry_of_key ''ab''" "entry_of_key ''abc''" "entry_of_key ''abd''"]
  note t2 = ravl_cmp_strict_total_order
    [of "entry_of_key ''abc''" "entry_of_key ''abd''" "entry_of_key ''abd''"]
  note t3 = ravl_cmp_strict_total_order
    [of "entry_of_key ''abc''" "entry_of_key ''ab''" "entry_of_key ''ab''"]
  have a: "ravl_cmp (entry_of_key ''ab'') (entry_of_key ''abc'') < 0"
    using t1 h1 by blast
  have b: "ravl_cmp (entry_of_key ''abc'') (entry_of_key ''abd'') < 0"
    using t2 h2 h3 by blast
  have c: "ravl_cmp (entry_of_key ''ab'') (entry_of_key ''abd'') < 0"
    using t1 a b by blast
  have d: "ravl_cmp (entry_of_key ''abc'') (entry_of_key ''ab'') > 0"
    using t3 a by blast
  have e: "\<not> ravl_cmp (entry_of_key ''abc'') (entry_of_key ''ab'') < 0"
    using d by simp
  show ?thesis using a b c d e h1 h2 h3 by blast
qed

section \<open>The container and the operations in closed form\<close>

text \<open>
  Facts about the container, and each operation written out as one equation for a caller
  that does not hold the lock.
\<close>

lemma ravl_find_None_iff:
  "ravl_find cmp mem t d = None \<longleftrightarrow> (\<forall>p\<in>set t. cmp d (mem p) \<noteq> 0)"
  by (induction t) auto

lemma ravl_find_SomeD:
  "ravl_find cmp mem t d = Some n \<Longrightarrow> n < length t \<and> cmp d (mem (t ! n)) = 0"
  by (induction t arbitrary: n) (auto split: if_splits)

lemma ravl_cmp_key_cong:
  "key l = key l' \<Longrightarrow> key r = key r' \<Longrightarrow> ravl_cmp l r = ravl_cmp l' r'"
  by (simp add: ravl_cmp_def ksize_def)

lemma ravl_find_key_cong:
  "key d = key d' \<Longrightarrow> \<forall>p\<in>set t. key (mem p) = key (mem' p) \<Longrightarrow>
   ravl_find ravl_cmp mem t d = ravl_find ravl_cmp mem' t d'"
proof (induction t)
  case Nil
  then show ?case by simp
next
  case (Cons p ps)
  have "ravl_cmp d (mem p) = ravl_cmp d' (mem' p)"
    using Cons.prems by (intro ravl_cmp_key_cong) simp_all
  with Cons show ?case by simp
qed

lemma ravl_find_find:
  "map_option (ravl_data t) (ravl_find ravl_cmp mem t d) = find (\<lambda>p. key (mem p) = key d) t"
proof (induction t)
  case Nil
  then show ?case by simp
next
  case (Cons p ps)
  have "map_option (\<lambda>n. (p # ps) ! Suc n) (ravl_find ravl_cmp mem ps d)
      = map_option (ravl_data ps) (ravl_find ravl_cmp mem ps d)"
    by (simp add: ravl_data_def [abs_def])
  with Cons show ?case
    by (auto simp: ravl_cmp_zero_iff ravl_data_def option.map_comp comp_def)
qed

lemma ravl_find_removed:
  "distinct (map (\<lambda>p. key (mem p)) t) \<Longrightarrow> ravl_find ravl_cmp mem t d = Some n \<Longrightarrow>
   ravl_find ravl_cmp mem (ravl_remove t n) d = None"
proof (induction t arbitrary: n)
  case Nil
  then show ?case by simp
next
  case (Cons p ps)
  show ?case
  proof (cases "ravl_cmp d (mem p) = 0")
    case True
    then have "n = 0" and kd: "key d = key (mem p)"
      using Cons.prems(2) by (simp_all add: ravl_cmp_zero_iff)
    moreover have "\<forall>q\<in>set ps. key (mem q) \<noteq> key (mem p)"
      using Cons.prems(1) by (auto simp: image_iff)
    ultimately show ?thesis
      by (auto simp: ravl_remove_def ravl_find_None_iff ravl_cmp_zero_iff)
  next
    case False
    then obtain n' where n': "n = Suc n'" "ravl_find ravl_cmp mem ps d = Some n'"
      using Cons.prems(2) by auto
    have "ravl_find ravl_cmp mem (ravl_remove ps n') d = None"
      using Cons.IH [of n'] Cons.prems(1) n' by simp
    then show ?thesis
      using False n' by (simp add: ravl_remove_def)
  qed
qed

lemma set_ravl_place: "set (ravl_place cmp mem t d) = insert d (set t)"
  by (induction t) auto

lemma length_ravl_place: "length (ravl_place cmp mem t d) = Suc (length t)"
  by (induction t) auto

lemma unlocked_id: "\<not> lock_ravl s \<Longrightarrow> s\<lparr>lock_ravl := False\<rparr> = s"
  by (cases s) simp

lemma insert_unfold:
  "\<not> lock_ravl s \<Longrightarrow>
   vmcache_index_insert node_ok entry s =
     Some (if node_ok \<and> ravl_find ravl_cmp (memory s) (index s) (memory s entry) = None
           then (0, s\<lparr>index := ravl_place ravl_cmp (memory s) (index s) entry,
                      memory := (memory s)(entry := (memory s entry)\<lparr>refcount := 1\<rparr>)\<rparr>)
           else (- 1, s))"
  by (cases s) (simp add: vmcache_index_insert_def util_mutex_lock_def util_mutex_unlock_def
      ravl_insert_def)

lemma remove_unfold:
  "\<not> lock_ravl s \<Longrightarrow>
   vmcache_index_remove entry s =
     Some (case ravl_find ravl_cmp (memory s) (index s) (memory s entry) of
             None \<Rightarrow> (- 1, s\<lparr>errno := EINVAL\<rparr>)
           | Some n \<Rightarrow> (0, vmemcache_entry_release entry (s\<lparr>index := ravl_remove (index s) n\<rparr>)))"
  by (cases s)
     (simp add: vmcache_index_remove_def util_mutex_lock_def util_mutex_unlock_def
        vmemcache_entry_release_def Let_def split: option.splits)

lemma get_fail:
  "SIZE_1K < length k \<Longrightarrow> vmcache_index_get sb None k s = Some (- 1, None, s)"
  by (simp add: vmcache_index_get_def Malloc_def)

lemma get_small:
  "\<not> lock_ravl s \<Longrightarrow> length k \<le> SIZE_1K \<Longrightarrow>
   vmcache_index_get sb m k s =
     Some (case ravl_find ravl_cmp (memory s) (index s) (sb\<lparr>key := k\<rparr>) of
             None \<Rightarrow> (0, None, s)
           | Some n \<Rightarrow> (0, Some (ravl_data (index s) n),
                        vmemcache_entry_acquire (ravl_data (index s) n) s))"
  by (cases s)
     (simp add: vmcache_index_get_def util_mutex_lock_def util_mutex_unlock_def
        vmemcache_entry_acquire_def Let_def split: option.splits)

lemma get_large:
  "\<not> lock_ravl s \<Longrightarrow> SIZE_1K < length k \<Longrightarrow>
   vmcache_index_get sb (Some a) k s =
     Some (let s1 = s\<lparr>memory := (memory s)(a := (memory s a)\<lparr>key := k\<rparr>),
                       allocated := allocated s - {a}\<rparr>
           in case ravl_find ravl_cmp (memory s1) (index s) (memory s1 a) of
                None \<Rightarrow> (0, None, s1)
              | Some n \<Rightarrow> (0, Some (ravl_data (index s) n),
                        vmemcache_entry_acquire (ravl_data (index s) n) s1))"
  by (cases s)
     (simp add: vmcache_index_get_def util_mutex_lock_def util_mutex_unlock_def Malloc_def
        vmemcache_entry_acquire_def Let_def split: option.splits)


lemma find_unique:
  "d \<in> set t \<Longrightarrow> P d \<Longrightarrow> \<forall>q\<in>set t. q \<noteq> d \<longrightarrow> \<not> P q \<Longrightarrow> find P t = Some d"
  by (induction t) auto

lemma find_Some_mem: "find P t = Some x \<Longrightarrow> x \<in> set t \<and> P x"
  by (induction t) (auto split: if_splits)

lemma find_cong_set: "\<forall>q\<in>set t. P q = Q q \<Longrightarrow> find P t = find Q t"
  by (induction t) auto

lemma case_ravl_find:
  "(case ravl_find ravl_cmp mem t d of None \<Rightarrow> A | Some n \<Rightarrow> B (ravl_data t n))
   = (case find (\<lambda>p. key (mem p) = key d) t of None \<Rightarrow> A | Some p \<Rightarrow> B p)"
proof -
  have "find (\<lambda>p. key (mem p) = key d) t = map_option (ravl_data t) (ravl_find ravl_cmp mem t d)"
    by (simp add: ravl_find_find)
  then show ?thesis
    by (cases "ravl_find ravl_cmp mem t d") simp_all
qed

lemma get_small_spec:
  assumes "\<not> lock_ravl s" and "length k \<le> SIZE_1K"
  shows "vmcache_index_get sb m k s = Some (lookup_spec k s)"
  using case_ravl_find [where A = "(0, None, s)" and mem = "memory s" and t = "index s"
      and d = "sb\<lparr>key := k\<rparr>" and B = "\<lambda>p. (0, Some p, vmemcache_entry_acquire p s)"]
  by (simp add: get_small [OF assms] lookup_spec_def)

lemma get_large_spec:
  assumes "\<not> lock_ravl s" and "SIZE_1K < length k" and "a \<notin> set (index s)"
  shows "vmcache_index_get sb (Some a) k s =
     Some (case lookup_spec k s of
             (rc, ent, s') \<Rightarrow>
               (rc, ent, s'\<lparr>memory := (memory s')(a := (memory s a)\<lparr>key := k\<rparr>),
                            allocated := allocated s' - {a}\<rparr>))"
proof -
  let ?mem = "(memory s)(a := (memory s a)\<lparr>key := k\<rparr>)"
  let ?s1 = "s\<lparr>memory := ?mem, allocated := allocated s - {a}\<rparr>"
  have f: "find (\<lambda>p. key (?mem p) = k) (index s) = find (\<lambda>p. key (memory s p) = k) (index s)"
    using assms(3) by (intro find_cong_set) auto
  have c: "(case ravl_find ravl_cmp ?mem (index s) (?mem a) of
              None \<Rightarrow> (0, None, ?s1)
            | Some n \<Rightarrow> (0, Some (ravl_data (index s) n),
                          vmemcache_entry_acquire (ravl_data (index s) n) ?s1))
        = (case find (\<lambda>p. key (memory s p) = k) (index s) of
              None \<Rightarrow> (0, None, ?s1)
            | Some p \<Rightarrow> (0, Some p, vmemcache_entry_acquire p ?s1))"
    using case_ravl_find [where A = "(0, None, ?s1)" and mem = ?mem and t = "index s"
        and d = "?mem a" and B = "\<lambda>p. (0, Some p, vmemcache_entry_acquire p ?s1)"] f
    by simp
  have ne: "p \<noteq> a" if "find (\<lambda>p. key (memory s p) = k) (index s) = Some p" for p
    using that assms(3) by (auto simp: find_Some_iff)
  show ?thesis
    using c ne
    by (auto simp: get_large [OF assms(1,2)] lookup_spec_def Let_def
        vmemcache_entry_acquire_def fun_upd_twist split: option.splits)
qed


lemma ravl_find_absent_iff:
  "ravl_find ravl_cmp mem t d = None \<longleftrightarrow> (\<forall>p\<in>set t. key (mem p) \<noteq> key d)"
  by (auto simp: ravl_find_None_iff ravl_cmp_zero_iff)

lemma insert_result:
  assumes "\<not> lock_ravl s"
  shows "\<exists>rc s'. vmcache_index_insert node_ok entry s = Some (rc, s') \<and>
     (rc = 0 \<or> rc = - 1) \<and>
     (rc = - 1 \<longleftrightarrow>
        \<not> node_ok \<or> (\<exists>p\<in>set (index s). key (memory s p) = key (memory s entry))) \<and>
     (rc = 0 \<longrightarrow>
        refcount (memory s' entry) = 1 \<and>
        set (index s') = insert entry (set (index s)) \<and>
        length (index s') = Suc (length (index s)) \<and>
        find (\<lambda>p. key (memory s' p) = key (memory s entry)) (index s') = Some entry \<and>
        key (memory s' entry) = key (memory s entry) \<and>
        payload (memory s' entry) = payload (memory s entry) \<and>
        (\<forall>q. q \<noteq> entry \<longrightarrow> memory s' q = memory s q) \<and>
        allocated s' = allocated s \<and> errno s' = errno s \<and> \<not> lock_ravl s') \<and>
     (rc = - 1 \<longrightarrow> s' = s)"
proof (cases "node_ok \<and> ravl_find ravl_cmp (memory s) (index s) (memory s entry) = None")
  case True
  let ?t = "ravl_place ravl_cmp (memory s) (index s) entry"
  let ?mem = "(memory s)(entry := (memory s entry)\<lparr>refcount := 1\<rparr>)"
  have absent: "\<forall>p\<in>set (index s). key (memory s p) \<noteq> key (memory s entry)"
    using True by (simp add: ravl_find_absent_iff)
  then have notin: "entry \<notin> set (index s)" by auto
  have "find (\<lambda>p. key (?mem p) = key (memory s entry)) ?t = Some entry"
    using absent by (intro find_unique) (auto simp: set_ravl_place)
  then show ?thesis
    using True absent assms
    by (simp add: insert_unfold set_ravl_place length_ravl_place)
next
  case False
  then show ?thesis
    using assms by (auto simp: insert_unfold ravl_find_absent_iff)
qed

lemma insert_states_last:
  "vmcache_index_insert node_ok entry s = Some (rc, s') \<Longrightarrow>
   last (vmcache_index_insert_states node_ok entry s) = s'"
  by (auto simp: vmcache_index_insert_def vmcache_index_insert_states_def Let_def
      split: option.splits prod.splits if_splits)

lemma insert_states_observed:
  assumes "vmcache_index_insert node_ok entry s = Some (0, s')"
    and "t \<in> set (vmcache_index_insert_states node_ok entry s)"
    and "\<not> lock_ravl t" and "entry \<in> set (index t)"
  shows "t = s' \<and> refcount (memory t entry) = 1"
proof -
  have unl: "\<not> lock_ravl s"
    using assms(1) by (auto simp: vmcache_index_insert_def util_mutex_lock_def split: if_splits)
  have ok: "node_ok \<and> ravl_find ravl_cmp (memory s) (index s) (memory s entry) = None"
    using assms(1) by (simp add: insert_unfold [OF unl] split: if_splits)
  then have "entry \<notin> set (index s)"
    by (auto simp: ravl_find_absent_iff)
  then show ?thesis
    using assms ok unl
    by (auto simp: vmcache_index_insert_def vmcache_index_insert_states_def Let_def
        util_mutex_lock_def util_mutex_unlock_def ravl_insert_def)
qed

lemma ravl_remove_remove1:
  "ravl_find cmp mem t d = Some n \<Longrightarrow> ravl_remove t n = remove1 (t ! n) t"
proof (induction t arbitrary: n)
  case Nil
  then show ?case by simp
next
  case (Cons p ps)
  show ?case
  proof (cases "cmp d (mem p) = 0")
    case True
    then show ?thesis using Cons.prems by (simp add: ravl_remove_def)
  next
    case False
    then obtain n' where n': "n = Suc n'" "ravl_find cmp mem ps d = Some n'"
      using Cons.prems by auto
    have "cmp d (mem (ps ! n')) = 0"
      using ravl_find_SomeD [OF n'(2)] by simp
    then have "p \<noteq> ps ! n'" using False by auto
    moreover have "ravl_remove ps n' = remove1 (ps ! n') ps"
      using Cons.IH [OF n'(2)] .
    ultimately show ?thesis
      using n' by (simp add: ravl_remove_def)
  qed
qed

lemma keys_distinct_unique:
  "index_keys_distinct s \<Longrightarrow> p \<in> set (index s) \<Longrightarrow> q \<in> set (index s) \<Longrightarrow>
   key (memory s q) = key (memory s p) \<Longrightarrow> q = p"
  by (auto simp: index_keys_distinct_def distinct_map inj_on_def)

lemma keys_distinct_pointers: "index_keys_distinct s \<Longrightarrow> distinct (index s)"
  by (simp add: index_keys_distinct_def distinct_map)

lemma find_key_present:
  assumes "index_keys_distinct s" and "p \<in> set (index s)"
  shows "find (\<lambda>q. key (memory s q) = key (memory s p)) (index s) = Some p"
  using assms keys_distinct_unique [OF assms(1,2)] by (intro find_unique) auto

lemma ravl_find_present:
  assumes "index_keys_distinct s" and "p \<in> set (index s)" and "key d = key (memory s p)"
  shows "\<exists>n. ravl_find ravl_cmp (memory s) (index s) d = Some n \<and> index s ! n = p"
proof -
  have "map_option (ravl_data (index s)) (ravl_find ravl_cmp (memory s) (index s) d) = Some p"
    using find_key_present [OF assms(1,2)] assms(3) by (simp add: ravl_find_find)
  then show ?thesis by (auto simp: ravl_data_def)
qed

lemma lookup_spec_absent:
  "\<forall>p\<in>set (index s). key (memory s p) \<noteq> k \<Longrightarrow> lookup_spec k s = (0, None, s)"
  by (simp add: lookup_spec_def find_None_iff [THEN iffD2])

lemma lookup_spec_present:
  "index_keys_distinct s \<Longrightarrow> p \<in> set (index s) \<Longrightarrow>
   lookup_spec (key (memory s p)) s = (0, Some p, vmemcache_entry_acquire p s)"
  by (simp add: lookup_spec_def find_key_present)

lemma lookup_spec_allocated: "allocated (snd (snd (lookup_spec k s))) = allocated s"
  by (simp add: lookup_spec_def vmemcache_entry_acquire_def split: option.splits)

lemma release_fields:
  "index (vmemcache_entry_release entry s) = index s"
  "lock_ravl (vmemcache_entry_release entry s) = lock_ravl s"
  "key (memory (vmemcache_entry_release entry s) q) = key (memory s q)"
  "payload (memory (vmemcache_entry_release entry s) q) = payload (memory s q)"
  "refcount (memory (vmemcache_entry_release entry s) entry) = refcount (memory s entry) - 1"
  "q \<noteq> entry \<Longrightarrow> memory (vmemcache_entry_release entry s) q = memory s q"
  "allocated (vmemcache_entry_release entry s) =
     (if refcount (memory s entry) = 1 then allocated s - {entry} else allocated s)"
  by (simp_all add: vmemcache_entry_release_def Let_def)

lemma set_ravl_remove: "set (ravl_remove t n) \<subseteq> set t"
  unfolding ravl_remove_def using set_take_subset [of n t] set_drop_subset [of "Suc n" t]
  by auto

lemma demo_simps:
  "memory demo 10 = (entry_of_key ''foo'')\<lparr>payload := 7\<rparr>"
  "memory demo 20 = (entry_of_key ''foo'')\<lparr>payload := 9\<rparr>"
  "memory demo 30 = entry_of_key ''ab''"
  "memory demo 40 = blank\<lparr>key := big_key\<rparr>"
  "allocated demo = {10, 20, 30, 40}" "index demo = []" "lock_ravl demo = False"
  "errno demo = 0"
  by (simp_all add: demo_def vmcache_index_new_def)

lemma demo_foo_simps:
  "memory demo_foo 10 = (entry_of_key ''foo'')\<lparr>payload := 7, refcount := 1\<rparr>"
  "memory demo_foo 20 = (entry_of_key ''foo'')\<lparr>payload := 9\<rparr>"
  "memory demo_foo 30 = entry_of_key ''ab''"
  "memory demo_foo 40 = blank\<lparr>key := big_key\<rparr>"
  "allocated demo_foo = {10, 20, 30, 40}" "index demo_foo = [10]" "lock_ravl demo_foo = False"
  "errno demo_foo = 0"
  by (simp_all add: demo_foo_def demo_simps)

lemma demo_big_simps:
  "memory demo_big 10 = (entry_of_key ''foo'')\<lparr>payload := 7\<rparr>"
  "memory demo_big 40 = blank\<lparr>key := big_key, refcount := 1\<rparr>"
  "allocated demo_big = {10, 20, 30, 40}" "index demo_big = [40]" "lock_ravl demo_big = False"
  by (simp_all add: demo_big_def demo_simps)

lemma big_key_length: "SIZE_1K < length big_key"
  by (simp add: big_key_def SIZE_1K_def)

lemma foo_key_length: "\<not> SIZE_1K < length (key (entry_of_key ''foo''))"
  by (simp add: entry_of_key_def SIZE_1K_def)

lemma foo_not_big: "key (entry_of_key ''foo'') \<noteq> big_key"
proof
  assume "key (entry_of_key ''foo'') = big_key"
  then have "length (key (entry_of_key ''foo'')) = length big_key" by simp
  then show False by (simp add: entry_of_key_def big_key_def)
qed

lemma demo_twin_simps:
  "memory demo_twin 10 = (entry_of_key ''foo'')\<lparr>payload := 7, refcount := 1\<rparr>"
  "memory demo_twin 20 = (entry_of_key ''foo'')\<lparr>payload := 9, refcount := 1\<rparr>"
  "allocated demo_twin = {10, 20, 30, 40}" "index demo_twin = [10]" "lock_ravl demo_twin = False"
  by (simp_all add: demo_twin_def demo_foo_simps)

lemma demo_foo_removed_simps:
  "index demo_foo_removed = []" "lock_ravl demo_foo_removed = False"
  "allocated demo_foo_removed = {20, 30, 40}"
  by (auto simp: demo_foo_removed_def release_fields demo_foo_simps)

lemma insert_demo:
  "vmcache_index_insert True 10 demo = Some (0, demo_foo)"
  "vmcache_index_insert True 40 demo = Some (0, demo_big)"
  by (simp_all add: insert_unfold demo_simps demo_foo_def demo_big_def)

lemma remove_demo_foo: "vmcache_index_remove 10 demo_foo = Some (0, demo_foo_removed)"
  by (simp add: remove_unfold demo_foo_simps demo_foo_removed_def ravl_cmp_zero_iff
      ravl_remove_def)

lemma demo_held_simps:
  "memory demo_held 10 = (entry_of_key ''foo'')\<lparr>payload := 7, refcount := 2\<rparr>"
  "allocated demo_held = {10, 20, 30, 40}" "index demo_held = [10]" "lock_ravl demo_held = False"
  by (simp_all add: demo_held_def vmemcache_entry_acquire_def demo_foo_simps)

lemma remove_demo_big: "vmcache_index_remove 40 demo_big = Some (0, demo_big_removed)"
  by (simp add: remove_unfold demo_big_simps demo_big_removed_def ravl_cmp_zero_iff
      ravl_remove_def)

lemma remove_demo_held: "vmcache_index_remove 10 demo_held = Some (0, demo_held_removed)"
  by (simp add: remove_unfold demo_held_simps demo_held_removed_def ravl_cmp_zero_iff
      ravl_remove_def)

section \<open>The invariants\<close>

text \<open>
  An index that is sorted by the comparator holds at most one entry per key. A new index
  satisfies \<open>index_inv\<close>, and insert (of an allocated entry), lookup (with a fresh probe
  block) and remove keep it, on their failing paths too. The hypotheses
  \<open>index_keys_distinct\<close> and \<open>index_allocated\<close> of the theorems below therefore hold in
  every state the operations reach from a new index.
\<close>

lemma sorted_keys_distinct:
  "sorted_wrt (\<lambda>p q. key_before (f p) (f q)) t \<Longrightarrow> distinct (map f t)"
  by (induction t) (auto simp: key_before_irrefl)

lemma index_sorted_distinct: "index_sorted s \<Longrightarrow> index_keys_distinct s"
  unfolding index_sorted_def index_keys_distinct_def by (rule sorted_keys_distinct)

lemma ravl_place_sorted:
  assumes "sorted_wrt (\<lambda>p q. key_before (key (mem p)) (key (mem q))) t"
    and "\<forall>p\<in>set t. key (mem p) \<noteq> key (mem d)"
  shows "sorted_wrt (\<lambda>p q. key_before (key (mem p)) (key (mem q))) (ravl_place ravl_cmp mem t d)"
  using assms
proof (induction t)
  case Nil
  then show ?case by simp
next
  case (Cons p ps)
  show ?case
  proof (cases "ravl_cmp (mem d) (mem p) < 0")
    case True
    then have dp: "key_before (key (mem d)) (key (mem p))"
      by (simp add: ravl_cmp_neg_iff)
    have "key_before (key (mem d)) (key (mem q))" if "q \<in> set ps" for q
      using Cons.prems(1) that dp key_before_trans by auto
    then show ?thesis
      using True dp Cons.prems(1) by simp
  next
    case False
    have "key_before (key (mem p)) (key (mem d))"
      using False Cons.prems(2) key_before_total [of "key (mem d)" "key (mem p)"]
      by (auto simp: ravl_cmp_neg_iff)
    then show ?thesis
      using False Cons by (auto simp: set_ravl_place)
  qed
qed

lemma sorted_wrt_cong_set:
  "\<forall>p\<in>set t. f p = g p \<Longrightarrow>
   sorted_wrt (\<lambda>p q. key_before (f p) (f q)) t = sorted_wrt (\<lambda>p q. key_before (g p) (g q)) t"
  by (induction t) auto

lemma ravl_remove_sorted:
  "sorted_wrt P t \<Longrightarrow> sorted_wrt P (ravl_remove t n)"
proof (induction t arbitrary: n)
  case Nil
  then show ?case by (simp add: ravl_remove_def)
next
  case (Cons p ps)
  show ?case
  proof (cases n)
    case 0
    then show ?thesis using Cons.prems by (simp add: ravl_remove_def)
  next
    case (Suc n')
    have "sorted_wrt P (ravl_remove ps n')"
      using Cons by simp
    moreover have "\<forall>q\<in>set (ravl_remove ps n'). P p q"
      using Cons.prems set_ravl_remove [of ps n'] by auto
    ultimately show ?thesis
      using Suc by (simp add: ravl_remove_def)
  qed
qed

lemma index_inv_new: "index_inv (vmcache_index_new s)"
  by (simp add: index_inv_def index_sorted_def index_allocated_def vmcache_index_new_def)

lemma index_inv_insert:
  assumes "\<not> lock_ravl s" and "index_inv s" and "entry \<in> allocated s"
    and "vmcache_index_insert node_ok entry s = Some (rc, s')"
  shows "index_inv s'"
proof (cases "node_ok \<and> ravl_find ravl_cmp (memory s) (index s) (memory s entry) = None")
  case False
  then have "s' = s" using assms(4) by (auto simp: insert_unfold [OF assms(1)])
  then show ?thesis using assms(2) by simp
next
  case True
  let ?t = "ravl_place ravl_cmp (memory s) (index s) entry"
  let ?mem = "(memory s)(entry := (memory s entry)\<lparr>refcount := 1\<rparr>)"
  have s': "s' = s\<lparr>index := ?t, memory := ?mem\<rparr>"
    using True assms(4) by (simp add: insert_unfold [OF assms(1)])
  have absent: "\<forall>p\<in>set (index s). key (memory s p) \<noteq> key (memory s entry)"
    using True by (simp add: ravl_find_absent_iff)
  have "sorted_wrt (\<lambda>p q. key_before (key (memory s p)) (key (memory s q))) ?t"
    using assms(2) absent by (intro ravl_place_sorted) (simp_all add: index_inv_def index_sorted_def)
  moreover have "\<forall>p\<in>set ?t. key (?mem p) = key (memory s p)" by simp
  ultimately have "sorted_wrt (\<lambda>p q. key_before (key (?mem p)) (key (?mem q))) ?t"
    using sorted_wrt_cong_set [of ?t "\<lambda>p. key (?mem p)" "\<lambda>p. key (memory s p)"] by simp
  then show ?thesis
    using assms(2,3) by (auto simp: s' index_inv_def index_sorted_def index_allocated_def set_ravl_place)
qed

lemma index_inv_get:
  assumes "\<not> lock_ravl s" and "index_inv s" and "malloc_fresh m s"
    and "vmcache_index_get sb m k s = Some (rc, ent, s')"
  shows "index_inv s'"
proof -
  have keep: "index_inv (snd (snd (lookup_spec k s)))"
  proof -
    have "\<forall>q\<in>set (index s). key (memory (vmemcache_entry_acquire p s) q) = key (memory s q)" for p
      by (simp add: vmemcache_entry_acquire_def)
    then have "index_sorted (vmemcache_entry_acquire p s)" for p
      using assms(2)
        sorted_wrt_cong_set [of "index s" "\<lambda>q. key (memory (vmemcache_entry_acquire p s) q)"
          "\<lambda>q. key (memory s q)"]
      by (simp add: index_inv_def index_sorted_def vmemcache_entry_acquire_def)
    moreover have "index_allocated (vmemcache_entry_acquire p s)" for p
      using assms(2) by (simp add: index_inv_def index_allocated_def vmemcache_entry_acquire_def)
    ultimately show ?thesis
      using assms(2) by (simp add: lookup_spec_def index_inv_def split: option.splits)
  qed
  show ?thesis
  proof (cases "SIZE_1K < length k")
    case False
    then have "s' = snd (snd (lookup_spec k s))"
      using assms(1,4) by (simp add: get_small_spec)
    then show ?thesis using keep by simp
  next
    case True
    show ?thesis
    proof (cases m)
      case None
      then have "s' = s" using True assms(4) by (simp add: get_fail)
      then show ?thesis using assms(2) by simp
    next
      case (Some a)
      then have fresh: "a \<notin> allocated s" using assms(3) by (simp add: malloc_fresh_def)
      then have notin: "a \<notin> set (index s)"
        using assms(2) by (auto simp: index_inv_def index_allocated_def)
      obtain rc1 ent1 s1 where l: "lookup_spec k s = (rc1, ent1, s1)"
        by (cases "lookup_spec k s") auto
      have s': "s' = s1\<lparr>memory := (memory s1)(a := (memory s a)\<lparr>key := k\<rparr>),
                        allocated := allocated s1 - {a}\<rparr>"
        using assms(4) unfolding Some get_large_spec [OF assms(1) True notin] l by simp
      have i1: "index s1 = index s" and a1: "allocated s1 = allocated s"
        using l by (auto simp: lookup_spec_def vmemcache_entry_acquire_def split: option.splits)
      have inv1: "index_inv s1" using keep l by simp
      have "\<forall>q\<in>set (index s1). key (memory s' q) = key (memory s1 q)"
        using notin i1 by (auto simp: s')
      then have "index_sorted s'"
        using inv1 sorted_wrt_cong_set [of "index s1" "\<lambda>q. key (memory s' q)"
            "\<lambda>q. key (memory s1 q)"]
        by (simp add: index_inv_def index_sorted_def s')
      moreover have "index_allocated s'"
        using inv1 notin i1 by (auto simp: index_inv_def index_allocated_def s')
      ultimately show ?thesis by (simp add: index_inv_def)
    qed
  qed
qed

lemma index_inv_remove:
  assumes "\<not> lock_ravl s" and "index_inv s"
    and "vmcache_index_remove entry s = Some (rc, s')"
  shows "index_inv s'"
proof (cases "ravl_find ravl_cmp (memory s) (index s) (memory s entry)")
  case None
  then have "s' = s\<lparr>errno := EINVAL\<rparr>"
    using assms(3) by (simp add: remove_unfold [OF assms(1)])
  then show ?thesis
    using assms(2) by (simp add: index_inv_def index_sorted_def index_allocated_def)
next
  case (Some n)
  let ?t = "ravl_remove (index s) n"
  have s': "s' = vmemcache_entry_release entry (s\<lparr>index := ?t\<rparr>)"
    using Some assms(3) by (simp add: remove_unfold [OF assms(1)])
  have idx: "index s' = ?t" by (simp add: s' release_fields)
  have srt: "sorted_wrt (\<lambda>p q. key_before (key (memory s p)) (key (memory s q))) ?t"
    using assms(2) by (intro ravl_remove_sorted) (simp add: index_inv_def index_sorted_def)
  have "\<forall>q\<in>set ?t. key (memory s' q) = key (memory s q)"
    by (simp add: s' release_fields)
  then have sorted: "index_sorted s'"
    using srt sorted_wrt_cong_set [of ?t "\<lambda>q. key (memory s' q)" "\<lambda>q. key (memory s q)"]
    by (simp add: index_sorted_def idx)
  have "ravl_find ravl_cmp (memory s) ?t (memory s entry) = None"
    using assms(2) Some index_sorted_distinct [of s]
    by (intro ravl_find_removed) (simp_all add: index_inv_def index_keys_distinct_def)
  then have "entry \<notin> set ?t"
    by (auto simp: ravl_find_absent_iff)
  moreover have "set ?t \<subseteq> allocated s"
    using assms(2) set_ravl_remove [of "index s" n] by (auto simp: index_inv_def index_allocated_def)
  ultimately have "index_allocated s'"
    by (auto simp: index_allocated_def idx) (auto simp: s' release_fields)
  then show ?thesis using sorted by (simp add: index_inv_def)
qed

section \<open>Insert\<close>

text \<open>
  Claim C1. For every index and entry, a call of insert by a caller that does not hold
  the lock returns 0 or \<open>- 1\<close>. It returns \<open>- 1\<close> exactly when the node allocation fails or
  an entry with an equal key is indexed, and then the state is the one before the call:
  the entry is not linked and no field of it is written. When it returns 0 the entry is
  linked and is the one a search for its key finds, its reference count is 1, and its key
  and payload and every other entry are as before. The reference count is written inside
  the critical section: of the states a successful call passes through, the only one in
  which the lock is free and the entry is linked is the state the call returns, where the
  count is 1.
\<close>

theorem vmcache_index_insert_all_or_nothing:
  assumes "\<not> lock_ravl s"
  shows "\<exists>rc s'. vmcache_index_insert node_ok entry s = Some (rc, s') \<and>
     (rc = 0 \<or> rc = - 1) \<and>
     (rc = - 1 \<longleftrightarrow>
        \<not> node_ok \<or> (\<exists>p\<in>set (index s). key (memory s p) = key (memory s entry))) \<and>
     (rc = 0 \<longrightarrow>
        refcount (memory s' entry) = 1 \<and>
        set (index s') = insert entry (set (index s)) \<and>
        length (index s') = Suc (length (index s)) \<and>
        find (\<lambda>p. key (memory s' p) = key (memory s entry)) (index s') = Some entry \<and>
        key (memory s' entry) = key (memory s entry) \<and>
        payload (memory s' entry) = payload (memory s entry) \<and>
        (\<forall>q. q \<noteq> entry \<longrightarrow> memory s' q = memory s q) \<and>
        allocated s' = allocated s \<and> errno s' = errno s \<and> \<not> lock_ravl s') \<and>
     (rc = - 1 \<longrightarrow> s' = s) \<and>
     last (vmcache_index_insert_states node_ok entry s) = s' \<and>
     (rc = 0 \<longrightarrow>
        (\<forall>t\<in>set (vmcache_index_insert_states node_ok entry s).
           \<not> lock_ravl t \<longrightarrow> entry \<in> set (index t) \<longrightarrow>
             t = s' \<and> refcount (memory t entry) = 1))"
proof -
  obtain rc s' where r: "vmcache_index_insert node_ok entry s = Some (rc, s')"
    and rest: "(rc = 0 \<or> rc = - 1) \<and>
     (rc = - 1 \<longleftrightarrow>
        \<not> node_ok \<or> (\<exists>p\<in>set (index s). key (memory s p) = key (memory s entry))) \<and>
     (rc = 0 \<longrightarrow>
        refcount (memory s' entry) = 1 \<and>
        set (index s') = insert entry (set (index s)) \<and>
        length (index s') = Suc (length (index s)) \<and>
        find (\<lambda>p. key (memory s' p) = key (memory s entry)) (index s') = Some entry \<and>
        key (memory s' entry) = key (memory s entry) \<and>
        payload (memory s' entry) = payload (memory s entry) \<and>
        (\<forall>q. q \<noteq> entry \<longrightarrow> memory s' q = memory s q) \<and>
        allocated s' = allocated s \<and> errno s' = errno s \<and> \<not> lock_ravl s') \<and>
     (rc = - 1 \<longrightarrow> s' = s)"
    using insert_result [OF assms, of node_ok entry] by blast
  have l: "last (vmcache_index_insert_states node_ok entry s) = s'"
    using r by (rule insert_states_last)
  have o: "rc = 0 \<longrightarrow>
        (\<forall>t\<in>set (vmcache_index_insert_states node_ok entry s).
           \<not> lock_ravl t \<longrightarrow> entry \<in> set (index t) \<longrightarrow>
             t = s' \<and> refcount (memory t entry) = 1)"
    using r insert_states_observed [of node_ok entry s s'] by blast
  show ?thesis
    by (intro exI [of _ rc] exI [of _ s'] conjI r l o) (use rest in blast)+
qed

theorem vmcache_index_insert_all_or_nothing_witness:
  "\<not> lock_ravl demo \<and>
   (\<exists>s'. vmcache_index_insert True 10 demo = Some (0, s') \<and>
      refcount (memory s' 10) = 1 \<and> set (index s') = {10}) \<and>
   vmcache_index_insert False 10 demo = Some (- 1, demo) \<and>
   vmcache_index_insert True 20 demo_foo = Some (- 1, demo_foo)"
proof -
  have a: "\<exists>s'. vmcache_index_insert True 10 demo = Some (0, s') \<and>
      refcount (memory s' 10) = 1 \<and> set (index s') = {10}"
    using vmcache_index_insert_all_or_nothing [of demo True 10]
    by (auto simp: demo_simps)
  have b: "vmcache_index_insert False 10 demo = Some (- 1, demo)"
    using vmcache_index_insert_all_or_nothing [of demo False 10]
    by (auto simp: demo_simps)
  have c: "vmcache_index_insert True 20 demo_foo = Some (- 1, demo_foo)"
    using vmcache_index_insert_all_or_nothing [of demo_foo True 20]
    by (auto simp: demo_foo_simps entry_of_key_def)
  show ?thesis using a b c by (simp add: demo_simps)
qed

text \<open>
  Claim C7. Duplicate rejection. When an entry \<open>p\<close> is indexed and \<open>e\<close> carries an equal
  key (the same length and the same bytes), inserting \<open>e\<close> returns \<open>- 1\<close> whatever the
  allocator answers, and the state after the failed insert is the state before it. A
  lookup of the key then still delivers \<open>p\<close>, whose key and payload are the ones it had
  and whose reference count is the one it had plus the reference this lookup takes; for a
  key longer than the threshold this lookup needs its own probe allocation to succeed,
  with a block that is not allocated.
\<close>

theorem duplicate_insert_rejected:
  assumes "\<not> lock_ravl s" and "index_keys_distinct s" and "index_allocated s"
    and "p \<in> set (index s)" and "key (memory s e) = key (memory s p)"
    and "malloc_fresh m s" and "SIZE_1K < length (key (memory s p)) \<longrightarrow> m \<noteq> None"
  shows "vmcache_index_insert node_ok e s = Some (- 1, s) \<and>
         (\<exists>s2. vmcache_index_get sb m (key (memory s p)) s = Some (0, Some p, s2) \<and>
            key (memory s2 p) = key (memory s p) \<and>
            payload (memory s2 p) = payload (memory s p) \<and>
            refcount (memory s2 p) = refcount (memory s p) + 1)"
proof -
  let ?k = "key (memory s p)"
  have "ravl_find ravl_cmp (memory s) (index s) (memory s e) \<noteq> None"
    using assms(4,5) by (auto simp: ravl_find_absent_iff)
  then have i: "vmcache_index_insert node_ok e s = Some (- 1, s)"
    by (simp add: insert_unfold [OF assms(1)])
  have l: "lookup_spec ?k s = (0, Some p, vmemcache_entry_acquire p s)"
    using assms(2,4) by (rule lookup_spec_present)
  have g: "\<exists>s2. vmcache_index_get sb m ?k s = Some (0, Some p, s2) \<and>
            key (memory s2 p) = ?k \<and> payload (memory s2 p) = payload (memory s p) \<and>
            refcount (memory s2 p) = refcount (memory s p) + 1"
  proof (cases "SIZE_1K < length ?k")
    case False
    then have "vmcache_index_get sb m ?k s = Some (lookup_spec ?k s)"
      using assms(1) by (simp add: get_small_spec)
    then show ?thesis
      unfolding l by (simp add: vmemcache_entry_acquire_def)
  next
    case True
    then obtain a where a: "m = Some a" using assms(7) by auto
    then have fresh: "a \<notin> allocated s"
      using assms(6) by (simp add: malloc_fresh_def)
    then have "a \<noteq> p" and notin: "a \<notin> set (index s)"
      using assms(3,4) by (auto simp: index_allocated_def)
    then show ?thesis
      unfolding a get_large_spec [OF assms(1) True notin] l
      by (simp add: vmemcache_entry_acquire_def)
  qed
  show ?thesis using i g by blast
qed

theorem duplicate_insert_rejected_witness:
  "\<not> lock_ravl demo_foo \<and> index_keys_distinct demo_foo \<and> index_allocated demo_foo \<and>
   10 \<in> set (index demo_foo) \<and> key (memory demo_foo 20) = key (memory demo_foo 10) \<and>
   malloc_fresh None demo_foo \<and>
   vmcache_index_insert True 20 demo_foo = Some (- 1, demo_foo) \<and>
   (\<exists>s2. vmcache_index_get blank None (key (memory demo_foo 10)) demo_foo
       = Some (0, Some 10, s2) \<and>
      payload (memory s2 10) = 7 \<and> refcount (memory s2 10) = 2)"
proof -
  have h: "\<not> lock_ravl demo_foo" "index_keys_distinct demo_foo" "index_allocated demo_foo"
    "10 \<in> set (index demo_foo)" "key (memory demo_foo 20) = key (memory demo_foo 10)"
    "malloc_fresh None demo_foo"
    by (simp_all add: demo_foo_simps index_keys_distinct_def index_allocated_def
        malloc_fresh_def)
  have small: "SIZE_1K < length (key (memory demo_foo 10)) \<longrightarrow> (None :: addr option) \<noteq> None"
    by (simp add: demo_foo_simps foo_key_length)
  note t = duplicate_insert_rejected [OF h small, of True blank]
  have a: "vmcache_index_insert True 20 demo_foo = Some (- 1, demo_foo)"
    using t by blast
  have b: "\<exists>s2. vmcache_index_get blank None (key (memory demo_foo 10)) demo_foo
       = Some (0, Some 10, s2) \<and>
      payload (memory s2 10) = 7 \<and> refcount (memory s2 10) = 2"
    using t by (auto simp: demo_foo_simps)
  show ?thesis using h a b by simp
qed

section \<open>Lookup\<close>

text \<open>
  Claim C3. Lookup tells absence from failure. It returns \<open>- 1\<close> exactly when the key is
  longer than the inline threshold and the allocation of the probe record fails; then no
  entry is delivered and the state is untouched. In every other case it returns 0 and
  delivers the indexed entry with that key, if there is one; when the key is absent it
  returns 0 with no entry, and index, allocated blocks and all allocated entries are as
  before.
\<close>

theorem vmcache_index_get_absent_is_not_failure:
  assumes "\<not> lock_ravl s" and "index_allocated s" and "malloc_fresh m s"
  shows "\<exists>rc ent s'. vmcache_index_get sb m k s = Some (rc, ent, s') \<and>
     (rc = 0 \<or> rc = - 1) \<and>
     (rc = - 1 \<longleftrightarrow> SIZE_1K < length k \<and> m = None) \<and>
     (rc = - 1 \<longrightarrow> ent = None \<and> s' = s) \<and>
     (rc = 0 \<longrightarrow> ent = find (\<lambda>p. key (memory s p) = k) (index s)) \<and>
     (rc = 0 \<longrightarrow> (\<forall>p\<in>set (index s). key (memory s p) \<noteq> k) \<longrightarrow>
        ent = None \<and> index s' = index s \<and> allocated s' = allocated s \<and>
        (\<forall>q\<in>allocated s. memory s' q = memory s q))"
proof (cases "SIZE_1K < length k")
  case False
  then have g: "vmcache_index_get sb m k s = Some (lookup_spec k s)"
    using assms(1) by (simp add: get_small_spec)
  show ?thesis
    using False unfolding g lookup_spec_def
    by (auto split: option.splits simp: find_None_iff find_None_iff2 dest: find_Some_mem)
next
  case True
  show ?thesis
  proof (cases m)
    case None
    then show ?thesis using True by (simp add: get_fail)
  next
    case (Some a)
    then have fresh: "a \<notin> allocated s" "a \<notin> set (index s)"
      using assms(2,3) by (auto simp: malloc_fresh_def index_allocated_def)
    show ?thesis
      using True fresh unfolding Some get_large_spec [OF assms(1) True fresh(2)] lookup_spec_def
      by (auto split: option.splits simp: find_None_iff find_None_iff2 vmemcache_entry_acquire_def
          dest: find_Some_mem)
  qed
qed

theorem vmcache_index_get_absent_is_not_failure_witness:
  "\<not> lock_ravl demo_foo \<and> index_allocated demo_foo \<and> malloc_fresh None demo_foo \<and>
   malloc_fresh (Some 50) demo_foo \<and>
   (\<exists>s'. vmcache_index_get blank None (map of_char ''ab'') demo_foo
      = Some (0, None, s') \<and> index s' = index demo_foo) \<and>
   (\<exists>s'. vmcache_index_get blank (Some 50) big_key demo_foo
      = Some (0, None, s') \<and> index s' = index demo_foo \<and> allocated s' = allocated demo_foo) \<and>
   vmcache_index_get blank None big_key demo_foo = Some (- 1, None, demo_foo)"
proof -
  have h: "\<not> lock_ravl demo_foo" "index_allocated demo_foo" "malloc_fresh None demo_foo"
    "malloc_fresh (Some 50) demo_foo"
    by (simp_all add: demo_foo_simps index_allocated_def malloc_fresh_def)
  have a: "\<exists>s'. vmcache_index_get blank None (map of_char ''ab'') demo_foo
      = Some (0, None, s') \<and> index s' = index demo_foo"
    using vmcache_index_get_absent_is_not_failure [OF h(1,2,3),
        of blank "map of_char ''ab''"]
    by (auto simp: demo_foo_simps entry_of_key_def SIZE_1K_def)
  have b: "\<exists>s'. vmcache_index_get blank (Some 50) big_key demo_foo
      = Some (0, None, s') \<and> index s' = index demo_foo \<and> allocated s' = allocated demo_foo"
    using vmcache_index_get_absent_is_not_failure [OF h(1,2,4), of blank big_key]
    by (auto simp: demo_foo_simps foo_not_big)
  have c: "vmcache_index_get blank None big_key demo_foo = Some (- 1, None, demo_foo)"
    using vmcache_index_get_absent_is_not_failure [OF h(1,2,3), of blank big_key]
    by (auto simp: big_key_length)
  show ?thesis using h a b c by simp
qed

text \<open>
  Claim C8. Both probe paths search alike. For a key within the threshold, lookup is
  \<open>lookup_spec\<close>, whatever the local buffer held. For a key above it, once the allocation
  succeeds with a fresh block \<open>a\<close>, lookup returns the code and the entry of
  \<open>lookup_spec\<close>, and its final state is the one of \<open>lookup_spec\<close> but for the bytes the
  probe left at \<open>a\<close>: the block is freed again (the allocated set is the one before the
  call, found or not), and every other address holds what \<open>lookup_spec\<close> leaves there.
  \<open>lookup_spec\<close> knows no threshold, so the threshold decides how the probe is built and
  nothing else.
\<close>

theorem vmcache_index_get_probe_paths_agree:
  assumes "\<not> lock_ravl s" and "index_allocated s"
  shows "(length k \<le> SIZE_1K \<longrightarrow> vmcache_index_get sb m k s = Some (lookup_spec k s)) \<and>
         (SIZE_1K < length k \<longrightarrow> a \<notin> allocated s \<longrightarrow>
            (\<exists>rc ent s1 s2. lookup_spec k s = (rc, ent, s1) \<and>
               vmcache_index_get sb (Some a) k s = Some (rc, ent, s2) \<and>
               s2 = s1\<lparr>memory := (memory s1)(a := (memory s a)\<lparr>key := k\<rparr>)\<rparr> \<and>
               allocated s2 = allocated s \<and> a \<notin> allocated s2 \<and>
               (\<forall>q. q \<noteq> a \<longrightarrow> memory s2 q = memory s1 q)))"
proof (intro conjI impI)
  assume "length k \<le> SIZE_1K"
  then show "vmcache_index_get sb m k s = Some (lookup_spec k s)"
    using assms(1) by (rule get_small_spec [rotated])
next
  assume big: "SIZE_1K < length k" and fresh: "a \<notin> allocated s"
  then have notin: "a \<notin> set (index s)"
    using assms(2) by (auto simp: index_allocated_def)
  obtain rc ent s1 where l: "lookup_spec k s = (rc, ent, s1)"
    by (cases "lookup_spec k s") auto
  have al: "allocated s1 = allocated s"
    using lookup_spec_allocated [of k s] l by simp
  then have "s1\<lparr>memory := (memory s1)(a := (memory s a)\<lparr>key := k\<rparr>),
                allocated := allocated s1 - {a}\<rparr>
           = s1\<lparr>memory := (memory s1)(a := (memory s a)\<lparr>key := k\<rparr>)\<rparr>"
    using fresh by simp
  then show "\<exists>rc ent s1 s2. lookup_spec k s = (rc, ent, s1) \<and>
               vmcache_index_get sb (Some a) k s = Some (rc, ent, s2) \<and>
               s2 = s1\<lparr>memory := (memory s1)(a := (memory s a)\<lparr>key := k\<rparr>)\<rparr> \<and>
               allocated s2 = allocated s \<and> a \<notin> allocated s2 \<and>
               (\<forall>q. q \<noteq> a \<longrightarrow> memory s2 q = memory s1 q)"
    using l al fresh by (simp add: get_large_spec [OF assms(1) big notin])
qed

theorem vmcache_index_get_probe_paths_agree_witness:
  "\<not> lock_ravl demo_big \<and> index_allocated demo_big \<and>
   length (key (entry_of_key ''foo'')) \<le> SIZE_1K \<and> SIZE_1K < length big_key \<and>
   50 \<notin> allocated demo_big \<and>
   vmcache_index_get blank None (key (entry_of_key ''foo'')) demo_big
     = Some (lookup_spec (key (entry_of_key ''foo'')) demo_big) \<and>
   lookup_spec big_key demo_big = (0, Some 40, vmemcache_entry_acquire 40 demo_big) \<and>
   (\<exists>s2. vmcache_index_get blank (Some 50) big_key demo_big = Some (0, Some 40, s2) \<and>
      allocated s2 = allocated demo_big \<and>
      memory s2 40 = memory (vmemcache_entry_acquire 40 demo_big) 40)"
proof -
  have h: "\<not> lock_ravl demo_big" "index_allocated demo_big"
    "length (key (entry_of_key ''foo'')) \<le> SIZE_1K" "SIZE_1K < length big_key"
    "50 \<notin> allocated demo_big"
    using foo_key_length by (simp_all add: demo_big_simps index_allocated_def big_key_length)
  have l: "lookup_spec big_key demo_big = (0, Some 40, vmemcache_entry_acquire 40 demo_big)"
    by (simp add: lookup_spec_def demo_big_simps)
  note t1 = vmcache_index_get_probe_paths_agree [OF h(1,2),
      where k = "key (entry_of_key ''foo'')" and sb = blank and m = None and a = 50]
  note t2 = vmcache_index_get_probe_paths_agree [OF h(1,2),
      where k = big_key and sb = blank and m = None and a = 50]
  have a: "vmcache_index_get blank None (key (entry_of_key ''foo'')) demo_big
     = Some (lookup_spec (key (entry_of_key ''foo'')) demo_big)"
    using t1 h(3) by blast
  have b: "\<exists>s2. vmcache_index_get blank (Some 50) big_key demo_big = Some (0, Some 40, s2) \<and>
      allocated s2 = allocated demo_big \<and>
      memory s2 40 = memory (vmemcache_entry_acquire 40 demo_big) 40"
    using t2 h(4,5) unfolding l by auto
  show ?thesis using h l a b by simp
qed

text \<open>
  Claim C5, as amended. Round trip, provided the probe allocation succeeds. After a
  successful insert of an entry (its key was then not in the index, and its reference
  count is 1 afterwards), a lookup of its key whose probe allocation does not fail
  returns 0 and delivers that same entry; in the state the lookup returns, its reference
  count is 2 and its key and payload are those it was inserted with. The allocation is
  needed only for a key longer than the threshold, and the block it hands out is one that
  is not allocated.
\<close>

theorem insert_then_lookup_round_trip:
  assumes "\<not> lock_ravl s" and "index_allocated s" and "entry \<in> allocated s"
    and "vmcache_index_insert node_ok entry s = Some (0, s1)"
    and "malloc_fresh m s1" and "SIZE_1K < length (key (memory s entry)) \<longrightarrow> m \<noteq> None"
  shows "(\<forall>p\<in>set (index s). key (memory s p) \<noteq> key (memory s entry)) \<and>
         refcount (memory s1 entry) = 1 \<and>
         (\<exists>s2. vmcache_index_get sb m (key (memory s entry)) s1 = Some (0, Some entry, s2) \<and>
            refcount (memory s2 entry) = 2 \<and>
            key (memory s2 entry) = key (memory s entry) \<and>
            payload (memory s2 entry) = payload (memory s entry) \<and>
            index s2 = index s1 \<and> allocated s2 = allocated s)"
proof -
  let ?k = "key (memory s entry)"
  have ok: "node_ok \<and> ravl_find ravl_cmp (memory s) (index s) (memory s entry) = None"
    using assms(4) by (simp add: insert_unfold [OF assms(1)] split: if_splits)
  then have absent: "\<forall>p\<in>set (index s). key (memory s p) \<noteq> ?k"
    by (simp add: ravl_find_absent_iff)
  have s1: "s1 = s\<lparr>index := ravl_place ravl_cmp (memory s) (index s) entry,
                    memory := (memory s)(entry := (memory s entry)\<lparr>refcount := 1\<rparr>)\<rparr>"
    using assms(4) ok by (simp add: insert_unfold [OF assms(1)])
  have unl: "\<not> lock_ravl s1" using assms(1) s1 by simp
  have idx: "set (index s1) = insert entry (set (index s))"
    by (simp add: s1 set_ravl_place)
  have f: "find (\<lambda>p. key (memory s1 p) = ?k) (index s1) = Some entry"
    using absent by (intro find_unique) (auto simp: s1 set_ravl_place)
  then have l: "lookup_spec ?k s1 = (0, Some entry, vmemcache_entry_acquire entry s1)"
    by (simp add: lookup_spec_def)
  have rc1: "refcount (memory s1 entry) = 1" by (simp add: s1)
  have g: "\<exists>s2. vmcache_index_get sb m ?k s1 = Some (0, Some entry, s2) \<and>
            refcount (memory s2 entry) = 2 \<and> key (memory s2 entry) = ?k \<and>
            payload (memory s2 entry) = payload (memory s entry) \<and>
            index s2 = index s1 \<and> allocated s2 = allocated s"
  proof (cases "SIZE_1K < length ?k")
    case False
    then have "vmcache_index_get sb m ?k s1 = Some (lookup_spec ?k s1)"
      using unl by (simp add: get_small_spec)
    then show ?thesis
      unfolding l by (simp add: vmemcache_entry_acquire_def s1)
  next
    case True
    then obtain a where a: "m = Some a" using assms(6) by auto
    then have fresh: "a \<notin> allocated s"
      using assms(5) by (simp add: malloc_fresh_def s1)
    then have "a \<noteq> entry" and "a \<notin> set (index s1)"
      using assms(2,3) idx by (auto simp: index_allocated_def)
    then show ?thesis
      using fresh unfolding a get_large_spec [OF unl True \<open>a \<notin> set (index s1)\<close>] l
      by (simp add: vmemcache_entry_acquire_def s1)
  qed
  show ?thesis using absent rc1 g by blast
qed

theorem insert_then_lookup_round_trip_witness:
  "\<not> lock_ravl demo \<and> index_allocated demo \<and> 10 \<in> allocated demo \<and> 40 \<in> allocated demo \<and>
   vmcache_index_insert True 10 demo = Some (0, demo_foo) \<and>
   vmcache_index_insert True 40 demo = Some (0, demo_big) \<and>
   malloc_fresh None demo_foo \<and> malloc_fresh (Some 50) demo_big \<and>
   SIZE_1K < length (key (memory demo 40)) \<and>
   (\<exists>s2. vmcache_index_get blank None (key (memory demo 10)) demo_foo = Some (0, Some 10, s2) \<and>
      refcount (memory s2 10) = 2 \<and> payload (memory s2 10) = 7) \<and>
   (\<exists>s2. vmcache_index_get blank (Some 50) (key (memory demo 40)) demo_big
       = Some (0, Some 40, s2) \<and>
      refcount (memory s2 40) = 2 \<and> allocated s2 = allocated demo)"
proof -
  have h: "\<not> lock_ravl demo" "index_allocated demo" "10 \<in> allocated demo"
    "40 \<in> allocated demo" "malloc_fresh None demo_foo" "malloc_fresh (Some 50) demo_big"
    by (simp_all add: demo_simps demo_foo_simps demo_big_simps index_allocated_def
        malloc_fresh_def)
  have small: "SIZE_1K < length (key (memory demo 10)) \<longrightarrow> (None :: addr option) \<noteq> None"
    by (simp add: demo_simps foo_key_length)
  have big: "SIZE_1K < length (key (memory demo 40))"
    by (simp add: demo_simps big_key_length)
  have a: "\<exists>s2. vmcache_index_get blank None (key (memory demo 10)) demo_foo
       = Some (0, Some 10, s2) \<and>
      refcount (memory s2 10) = 2 \<and> payload (memory s2 10) = 7"
    using insert_then_lookup_round_trip [OF h(1,2,3) insert_demo(1) h(5) small, of blank]
    by (auto simp: demo_simps)
  have b: "\<exists>s2. vmcache_index_get blank (Some 50) (key (memory demo 40)) demo_big
       = Some (0, Some 40, s2) \<and>
      refcount (memory s2 40) = 2 \<and> allocated s2 = allocated demo"
    using insert_then_lookup_round_trip [OF h(1,2,4) insert_demo(2) h(6), of blank]
    by auto
  show ?thesis using h insert_demo big a b by simp
qed

text \<open>
  The proviso is needed, so the round trip does not hold for every key: the entry at
  address 40 has a key of 1025 bytes that is not in the index, its insert succeeds, and
  the lookup that follows, with \<^verbatim>\<open>Malloc\<close> returning \<^verbatim>\<open>NULL\<close>, returns \<open>- 1\<close> with no
  entry and leaves the reference count at 1.
\<close>

theorem round_trip_probe_allocation_counterexample:
  "index demo = [] \<and>
   vmcache_index_insert True 40 demo = Some (0, demo_big) \<and>
   refcount (memory demo_big 40) = 1 \<and>
   SIZE_1K < length (key (memory demo 40)) \<and>
   vmcache_index_get blank None (key (memory demo 40)) demo_big = Some (- 1, None, demo_big)"
  by (simp add: insert_demo demo_simps demo_big_simps big_key_length get_fail)

section \<open>Remove\<close>

text \<open>
  Claim C4. Removing an entry whose key is not in the index fails: the call returns
  \<open>- 1\<close>, and the state after it is the state before it with \<^verbatim>\<open>errno\<close> set to
  \<^verbatim>\<open>EINVAL\<close>: no node is detached and no reference count is changed.
\<close>

theorem vmcache_index_remove_absent:
  assumes "\<not> lock_ravl s"
    and "\<forall>p\<in>set (index s). key (memory s p) \<noteq> key (memory s entry)"
  shows "vmcache_index_remove entry s = Some (- 1, s\<lparr>errno := EINVAL\<rparr>)"
  using assms by (simp add: remove_unfold ravl_find_absent_iff [THEN iffD2])

theorem vmcache_index_remove_absent_witness:
  "\<not> lock_ravl demo_foo \<and>
   vmcache_index_remove 30 demo_foo = Some (- 1, demo_foo\<lparr>errno := EINVAL\<rparr>) \<and>
   index (demo_foo\<lparr>errno := EINVAL\<rparr>) = [10] \<and>
   refcount (memory (demo_foo\<lparr>errno := EINVAL\<rparr>) 10) = 1 \<and>
   refcount (memory (demo_foo\<lparr>errno := EINVAL\<rparr>) 30) = 0"
proof -
  have "vmcache_index_remove 30 demo_foo = Some (- 1, demo_foo\<lparr>errno := EINVAL\<rparr>)"
    by (rule vmcache_index_remove_absent) (simp_all add: demo_foo_simps entry_of_key_def)
  then show ?thesis
    by (simp add: demo_foo_simps entry_of_key_def)
qed

text \<open>
  Claim C6, as amended. Remove, then lookup. When remove returns 0, it has detached the
  node it found and then run the release step on the entry: the state is
  \<open>vmemcache_entry_release\<close> applied to the state with the node taken out. No indexed
  entry carries the key any more, so a lookup of the key delivers no entry: it returns 0,
  or \<open>- 1\<close> when the probe allocation fails, which happens only for a key longer than the
  threshold. The entry's reference count went down by one; the entry stays allocated when
  that leaves holders, and is finalized when the index held the last reference.
\<close>

theorem remove_then_lookup_not_found:
  assumes "\<not> lock_ravl s" and "index_keys_distinct s" and "index_allocated s"
    and "vmcache_index_remove entry s = Some (0, s1)" and "malloc_fresh m s1"
  shows "(\<exists>n. ravl_find ravl_cmp (memory s) (index s) (memory s entry) = Some n \<and>
            s1 = vmemcache_entry_release entry (s\<lparr>index := ravl_remove (index s) n\<rparr>)) \<and>
         (\<forall>p\<in>set (index s1). key (memory s1 p) \<noteq> key (memory s entry)) \<and>
         (\<exists>rc s2. vmcache_index_get sb m (key (memory s entry)) s1 = Some (rc, None, s2) \<and>
            (rc = 0 \<or> rc = - 1) \<and>
            (rc = - 1 \<longleftrightarrow> SIZE_1K < length (key (memory s entry)) \<and> m = None)) \<and>
         refcount (memory s1 entry) = refcount (memory s entry) - 1 \<and>
         (refcount (memory s entry) \<noteq> 1 \<longrightarrow> (entry \<in> allocated s1 \<longleftrightarrow> entry \<in> allocated s)) \<and>
         (refcount (memory s entry) = 1 \<longrightarrow> entry \<notin> allocated s1)"
proof -
  let ?k = "key (memory s entry)"
  obtain n where n: "ravl_find ravl_cmp (memory s) (index s) (memory s entry) = Some n"
    and s1: "s1 = vmemcache_entry_release entry (s\<lparr>index := ravl_remove (index s) n\<rparr>)"
    using assms(4) by (auto simp: remove_unfold [OF assms(1)] split: option.splits)
  have idx: "index s1 = ravl_remove (index s) n"
    by (simp add: s1 release_fields)
  have unl: "\<not> lock_ravl s1"
    using assms(1) by (simp add: s1 release_fields)
  have "ravl_find ravl_cmp (memory s) (ravl_remove (index s) n) (memory s entry) = None"
    using assms(2) n by (intro ravl_find_removed) (simp_all add: index_keys_distinct_def)
  then have gone0: "\<forall>p\<in>set (index s1). key (memory s p) \<noteq> ?k"
    by (simp add: ravl_find_absent_iff idx)
  then have gone: "\<forall>p\<in>set (index s1). key (memory s1 p) \<noteq> ?k"
    by (simp add: s1 release_fields)
  have "entry \<notin> set (index s1)" using gone0 by auto
  moreover have "set (index s1) \<subseteq> allocated s"
    using assms(3) set_ravl_remove [of "index s" n] by (auto simp: idx index_allocated_def)
  ultimately have sub: "set (index s1) \<subseteq> allocated s1"
    by (auto simp: s1 release_fields)
  have l: "lookup_spec ?k s1 = (0, None, s1)"
    using gone by (rule lookup_spec_absent)
  have g: "\<exists>rc s2. vmcache_index_get sb m ?k s1 = Some (rc, None, s2) \<and>
            (rc = 0 \<or> rc = - 1) \<and> (rc = - 1 \<longleftrightarrow> SIZE_1K < length ?k \<and> m = None)"
  proof (cases "SIZE_1K < length ?k")
    case False
    then show ?thesis
      using unl l by (simp add: get_small_spec)
  next
    case True
    show ?thesis
    proof (cases m)
      case None
      then show ?thesis using True by (simp add: get_fail)
    next
      case (Some a)
      then have "a \<notin> set (index s1)"
        using assms(5) sub by (auto simp: malloc_fresh_def)
      then show ?thesis
        using True unfolding Some get_large_spec [OF unl True \<open>a \<notin> set (index s1)\<close>] l
        by simp
    qed
  qed
  have r: "refcount (memory s1 entry) = refcount (memory s entry) - 1"
    "refcount (memory s entry) \<noteq> 1 \<longrightarrow> (entry \<in> allocated s1 \<longleftrightarrow> entry \<in> allocated s)"
    "refcount (memory s entry) = 1 \<longrightarrow> entry \<notin> allocated s1"
    by (simp_all add: s1 release_fields)
  show ?thesis using n s1 gone g r by blast
qed

theorem remove_then_lookup_not_found_witness:
  "\<not> lock_ravl demo_foo \<and> index_keys_distinct demo_foo \<and> index_allocated demo_foo \<and>
   vmcache_index_remove 10 demo_foo = Some (0, demo_foo_removed) \<and>
   malloc_fresh None demo_foo_removed \<and>
   (\<exists>s2. vmcache_index_get blank None (key (memory demo_foo 10)) demo_foo_removed
      = Some (0, None, s2)) \<and>
   refcount (memory demo_foo 10) = 1 \<and> 10 \<notin> allocated demo_foo_removed \<and>
   \<not> lock_ravl demo_held \<and> index_keys_distinct demo_held \<and> index_allocated demo_held \<and>
   vmcache_index_remove 10 demo_held = Some (0, demo_held_removed) \<and>
   malloc_fresh None demo_held_removed \<and>
   (\<exists>s2. vmcache_index_get blank None (key (memory demo_held 10)) demo_held_removed
      = Some (0, None, s2)) \<and>
   refcount (memory demo_held 10) = 2 \<and> 10 \<in> allocated demo_held \<and>
   10 \<in> allocated demo_held_removed \<and> refcount (memory demo_held_removed 10) = 1"
proof -
  have h: "\<not> lock_ravl demo_foo" "index_keys_distinct demo_foo" "index_allocated demo_foo"
    "malloc_fresh None demo_foo_removed"
    by (simp_all add: demo_foo_simps index_keys_distinct_def index_allocated_def
        malloc_fresh_def)
  have r1: "refcount (memory demo_foo 10) = 1" by (simp add: demo_foo_simps)
  note t = remove_then_lookup_not_found [OF h(1,2,3) remove_demo_foo h(4), of blank]
  have small: "\<not> SIZE_1K < length (key (memory demo_foo 10))"
    by (simp add: demo_foo_simps foo_key_length)
  have a: "\<exists>s2. vmcache_index_get blank None (key (memory demo_foo 10)) demo_foo_removed
      = Some (0, None, s2)"
    using t small by auto
  have b: "10 \<notin> allocated demo_foo_removed"
    using t r1 by blast
  have h': "\<not> lock_ravl demo_held" "index_keys_distinct demo_held" "index_allocated demo_held"
    "malloc_fresh None demo_held_removed"
    by (simp_all add: demo_held_simps index_keys_distinct_def index_allocated_def
        malloc_fresh_def)
  have r2: "refcount (memory demo_held 10) = 2" "10 \<in> allocated demo_held"
    by (simp_all add: demo_held_simps)
  note t' = remove_then_lookup_not_found [OF h'(1,2,3) remove_demo_held h'(4), of blank]
  have small': "\<not> SIZE_1K < length (key (memory demo_held 10))"
    by (simp add: demo_held_simps foo_key_length)
  have a': "\<exists>s2. vmcache_index_get blank None (key (memory demo_held 10)) demo_held_removed
      = Some (0, None, s2)"
    using t' small' by auto
  have b': "10 \<in> allocated demo_held_removed" "refcount (memory demo_held_removed 10) = 1"
    using t' r2 by auto
  show ?thesis using h remove_demo_foo a b r1 h' remove_demo_held a' b' r2 by simp
qed

text \<open>
  The lookup after a remove is not always the successful not-found return: the entry at
  address 40, whose key has 1025 bytes, is removed with success, and the lookup of its key
  that follows, with \<^verbatim>\<open>Malloc\<close> returning \<^verbatim>\<open>NULL\<close>, returns \<open>- 1\<close>.
\<close>

theorem remove_then_lookup_probe_allocation_counterexample:
  "index_keys_distinct demo_big \<and> index_allocated demo_big \<and> \<not> lock_ravl demo_big \<and>
   40 \<in> set (index demo_big) \<and>
   vmcache_index_remove 40 demo_big = Some (0, demo_big_removed) \<and>
   SIZE_1K < length (key (memory demo_big 40)) \<and>
   vmcache_index_get blank None (key (memory demo_big 40)) demo_big_removed
     = Some (- 1, None, demo_big_removed)"
  by (simp add: remove_demo_big demo_big_simps big_key_length get_fail
      index_keys_distinct_def index_allocated_def)

text \<open>
  Claim C10. Remove matches by key, not by identity. When the index holds an entry \<open>p\<close>
  whose key equals the key of the argument \<open>entry\<close>, remove returns 0, detaches \<open>p\<close>, and
  runs the release step on \<open>entry\<close>: the argument's reference count goes down and the
  argument is finalized when it reaches 0. If \<open>p\<close> and \<open>entry\<close> are different objects,
  \<open>p\<close> is out of the index with its fields, reference count included, and its allocation
  untouched.
\<close>

theorem vmcache_index_remove_matches_by_key:
  assumes "\<not> lock_ravl s" and "index_keys_distinct s"
    and "p \<in> set (index s)" and "key (memory s entry) = key (memory s p)"
  shows "\<exists>s'. vmcache_index_remove entry s = Some (0, s') \<and>
           s' = vmemcache_entry_release entry (s\<lparr>index := remove1 p (index s)\<rparr>) \<and>
           index s' = remove1 p (index s) \<and> p \<notin> set (index s') \<and>
           refcount (memory s' entry) = refcount (memory s entry) - 1 \<and>
           (refcount (memory s entry) = 1 \<longrightarrow> entry \<notin> allocated s') \<and>
           (p \<noteq> entry \<longrightarrow>
              memory s' p = memory s p \<and> (p \<in> allocated s' \<longleftrightarrow> p \<in> allocated s))"
proof -
  obtain n where n: "ravl_find ravl_cmp (memory s) (index s) (memory s entry) = Some n"
    and p: "index s ! n = p"
    using ravl_find_present [OF assms(2,3,4)] by blast
  have rm: "ravl_remove (index s) n = remove1 p (index s)"
    using ravl_remove_remove1 [OF n] p by simp
  have r: "vmcache_index_remove entry s =
      Some (0, vmemcache_entry_release entry (s\<lparr>index := remove1 p (index s)\<rparr>))"
    using n rm by (simp add: remove_unfold [OF assms(1)])
  have "p \<notin> set (remove1 p (index s))"
    using keys_distinct_pointers [OF assms(2)] by simp
  then show ?thesis
    unfolding r by (simp add: release_fields)
qed

theorem vmcache_index_remove_matches_by_key_witness:
  "\<not> lock_ravl demo_twin \<and> index_keys_distinct demo_twin \<and> 10 \<in> set (index demo_twin) \<and>
   key (memory demo_twin 20) = key (memory demo_twin 10) \<and>
   (\<exists>s'. vmcache_index_remove 20 demo_twin = Some (0, s') \<and>
      index s' = [] \<and> memory s' 10 = memory demo_twin 10 \<and> refcount (memory s' 10) = 1 \<and>
      10 \<in> allocated s' \<and> refcount (memory s' 20) = 0 \<and> 20 \<notin> allocated s')"
proof -
  have h: "\<not> lock_ravl demo_twin" "index_keys_distinct demo_twin"
    "10 \<in> set (index demo_twin)" "key (memory demo_twin 20) = key (memory demo_twin 10)"
    by (simp_all add: demo_twin_simps index_keys_distinct_def)
  have "\<exists>s'. vmcache_index_remove 20 demo_twin = Some (0, s') \<and>
      index s' = [] \<and> memory s' 10 = memory demo_twin 10 \<and> refcount (memory s' 10) = 1 \<and>
      10 \<in> allocated s' \<and> refcount (memory s' 20) = 0 \<and> 20 \<notin> allocated s'"
    using vmcache_index_remove_matches_by_key [OF h]
    by (auto simp: demo_twin_simps)
  then show ?thesis using h by simp
qed

section \<open>The lock\<close>

text \<open>
  Claim C9. Every operation returns with the lock released, on every path: whatever the
  arguments, the allocator's answers and the contents of the index (so also for a failed
  insert, a failed probe allocation, a lookup or a remove of an absent key), a call
  entered without the lock returns, and the lock is not held in the state it returns.
\<close>

theorem lock_released_on_every_exit:
  assumes "\<not> lock_ravl s"
  shows "(\<exists>rc s'. vmcache_index_insert node_ok entry s = Some (rc, s') \<and> \<not> lock_ravl s') \<and>
         (\<exists>rc ent s'. vmcache_index_get sb m k s = Some (rc, ent, s') \<and> \<not> lock_ravl s') \<and>
         (\<exists>rc s'. vmcache_index_remove entry' s = Some (rc, s') \<and> \<not> lock_ravl s')"
proof -
  have i: "\<exists>rc s'. vmcache_index_insert node_ok entry s = Some (rc, s') \<and> \<not> lock_ravl s'"
    using assms
    by (auto simp: vmcache_index_insert_def util_mutex_lock_def util_mutex_unlock_def Let_def
        split: prod.splits)
  have g: "\<exists>rc ent s'. vmcache_index_get sb m k s = Some (rc, ent, s') \<and> \<not> lock_ravl s'"
  proof (cases "SIZE_1K < length k")
    case True
    then show ?thesis
      using assms
      by (cases m)
         (auto simp: vmcache_index_get_def util_mutex_lock_def util_mutex_unlock_def Let_def
           Malloc_def vmemcache_entry_acquire_def split: option.splits)
  next
    case False
    then show ?thesis
      using assms
      by (auto simp: vmcache_index_get_def util_mutex_lock_def util_mutex_unlock_def Let_def
          vmemcache_entry_acquire_def split: option.splits)
  qed
  have r: "\<exists>rc s'. vmcache_index_remove entry' s = Some (rc, s') \<and> \<not> lock_ravl s'"
    using assms
    by (auto simp: vmcache_index_remove_def util_mutex_lock_def util_mutex_unlock_def Let_def
        vmemcache_entry_release_def split: option.splits)
  show ?thesis using i g r by blast
qed

theorem lock_released_on_every_exit_witness:
  "\<not> lock_ravl demo_foo \<and>
   (\<exists>rc s'. vmcache_index_insert True 20 demo_foo = Some (rc, s') \<and> \<not> lock_ravl s') \<and>
   (\<exists>rc ent s'. vmcache_index_get blank None big_key demo_foo = Some (rc, ent, s')
      \<and> \<not> lock_ravl s') \<and>
   (\<exists>rc s'. vmcache_index_remove 30 demo_foo = Some (rc, s') \<and> \<not> lock_ravl s')"
proof -
  have h: "\<not> lock_ravl demo_foo" by (simp add: demo_foo_simps)
  show ?thesis
    using h lock_released_on_every_exit [OF h, where node_ok = True and entry = 20
        and sb = blank and m = None and k = big_key and entry' = 30]
    by simp
qed

end
